theory Spec2Isabelle
  imports Complex_Main "HOL-Library.Sublist"
begin

section \<open>Crawler utilities (app/crawler/utils.py)\<close>

text \<open>
  Python strings are modelled as \<open>string\<close>, one \<open>char\<close> per code point; the model
  covers the code points below 256. \<open>str.lower\<close> maps the upper-case letters of that
  range to their lower-case forms, \<open>str.strip\<close> removes leading and trailing
  white space (the characters for which \<open>str.isspace\<close> holds).
\<close>

definition lower_char :: "char \<Rightarrow> char" where
  "lower_char c =
     (let n = (of_char c :: nat)
      in if (65 \<le> n \<and> n \<le> 90) \<or> (192 \<le> n \<and> n \<le> 214) \<or> (216 \<le> n \<and> n \<le> 222)
         then char_of (n + 32) else c)"

definition lower :: "string \<Rightarrow> string" where
  "lower s = map lower_char s"

definition isspace :: "char \<Rightarrow> bool" where
  "isspace c =
     (let n = (of_char c :: nat)
      in (9 \<le> n \<and> n \<le> 13) \<or> (28 \<le> n \<and> n \<le> 32) \<or> n = 133 \<or> n = 160)"

definition strip :: "string \<Rightarrow> string" where
  "strip s = rev (dropWhile isspace (rev (dropWhile isspace s)))"

text \<open>Python's \<open>key in text\<close> on strings: \<open>key\<close> occurs as a contiguous substring.\<close>

fun str_contains :: "string \<Rightarrow> string \<Rightarrow> bool" where
  "str_contains [] key = (key = [])"
| "str_contains (c # cs) key = (prefix key (c # cs) \<or> str_contains cs key)"

text \<open>The dictionary literal of \<open>rating_to_int\<close>, in its insertion order.\<close>

definition rating_map :: "(string \<times> int) list" where
  "rating_map =
     [(''zero'', 0), (''one'', 1), (''two'', 2), (''three'', 3), (''four'', 4), (''five'', 5)]"

text \<open>The \<open>for key, value in rating_map.items()\<close> loop: the first key found wins.\<close>

fun rating_scan :: "(string \<times> int) list \<Rightarrow> string \<Rightarrow> int" where
  "rating_scan [] rating_text = 0"
| "rating_scan ((key, v) # kvs) rating_text =
     (if str_contains rating_text key then v else rating_scan kvs rating_text)"

definition rating_to_int :: "string \<Rightarrow> int" where
  "rating_to_int rating_text = rating_scan rating_map (strip (lower rating_text))"

section \<open>Change classification (app/crawler/change_detector.py)\<close>

definition determine_change_type :: "string list \<Rightarrow> string" where
  "determine_change_type changed_fields =
     (if ''price_including_tax'' \<in> set changed_fields
         \<or> ''price_excluding_tax'' \<in> set changed_fields then ''price_change''
      else if ''availability'' \<in> set changed_fields then ''availability_change''
      else if ''name'' \<in> set changed_fields \<or> ''description'' \<in> set changed_fields
        then ''metadata_change''
      else if ''rating'' \<in> set changed_fields then ''rating_change''
      else ''other_change'')"

section \<open>Data model (app/models/book.py, app/models/change_log.py)\<close>

text \<open>
  The values held by the dictionaries of the program. A Python \<open>float\<close> is modelled
  as a real number and a \<open>datetime\<close> as a number of clock ticks.
\<close>

datatype pyval =
    PyNone
  | PyBool bool
  | PyStr string
  | PyInt int
  | PyFloat real
  | PyDateTime nat

text \<open>A \<open>dict\<close> with string keys, as the list of its items in insertion order.\<close>

type_synonym pydict = "(string \<times> pyval) list"

definition dict_get :: "pydict \<Rightarrow> string \<Rightarrow> pyval \<Rightarrow> pyval" where
  "dict_get d k dflt = (case map_of d k of None \<Rightarrow> dflt | Some v \<Rightarrow> v)"

definition py_opt_str :: "string option \<Rightarrow> pyval" where
  "py_opt_str v = (case v of None \<Rightarrow> PyNone | Some s \<Rightarrow> PyStr s)"

text \<open>
  The exceptions of the program: the validation error of a pydantic model, the overflow of
  an integer that the database encoder cannot write, the refusal of a document by a unique
  index, another refusal of a write, and the error of a malformed link.
\<close>

datatype error = ValidationError | OverflowError | DuplicateKeyError | WriteRefused | ValueError

record BookCreate =
  name :: string
  description :: "string option"
  category :: string
  price_including_tax :: real
  price_excluding_tax :: real
  availability :: string
  number_of_reviews :: int
  image_url :: "string option"
  rating :: int
  source_url :: string
  raw_html :: "string option"

text \<open>
  \<open>Book\<close> has the fields of \<open>BookCreate\<close> and four more; its field \<open>id\<close> is named
  \<open>doc_id\<close> here.
\<close>

record Book = BookCreate +
  doc_id :: string
  crawl_timestamp :: nat
  status :: string
  data_hash :: "string option"

text \<open>\<open>BookCreate.model_dump()\<close>: every field, in declaration order.\<close>

definition model_dump :: "BookCreate \<Rightarrow> pydict" where
  "model_dump b =
     [(''name'', PyStr (name b)),
      (''description'', py_opt_str (description b)),
      (''category'', PyStr (category b)),
      (''price_including_tax'', PyFloat (price_including_tax b)),
      (''price_excluding_tax'', PyFloat (price_excluding_tax b)),
      (''availability'', PyStr (availability b)),
      (''number_of_reviews'', PyInt (number_of_reviews b)),
      (''image_url'', py_opt_str (image_url b)),
      (''rating'', PyInt (rating b)),
      (''source_url'', PyStr (source_url b)),
      (''raw_html'', py_opt_str (raw_html b))]"

text \<open>
  \<open>Book(**doc)\<close> validates the document against the model; the one constraint that a
  document written by this program can violate is \<open>rating: int = Field(..., ge=0, le=5)\<close>
  (\<open>BookCreate\<close> declares \<open>rating: int\<close> without bounds).
\<close>

definition Book_init :: "Book \<Rightarrow> error + Book" where
  "Book_init doc = (if 0 \<le> rating doc \<and> rating doc \<le> 5 then Inr doc else Inl ValidationError)"

record ChangeLogCreate =
  book_id :: string
  changed_fields :: pydict
  old_values :: pydict
  new_values :: pydict
  change_type :: string

record ChangeLog = ChangeLogCreate +
  log_id :: string
  timestamp :: nat

text \<open>
  What a caller passes for \<open>changed_fields\<close>: a dictionary or a list of field names.
  The field is declared \<open>changed_fields: Dict[str, Any]\<close>, and the model is a
  pydantic (version 2) \<open>BaseModel\<close>: its validation accepts a dictionary and rejects a
  list with a \<open>ValidationError\<close>.
\<close>

datatype changed_fields_arg = AsDict pydict | AsList "string list"

definition ChangeLogCreate_init ::
  "string \<Rightarrow> changed_fields_arg \<Rightarrow> pydict \<Rightarrow> pydict \<Rightarrow> string \<Rightarrow> error + ChangeLogCreate" where
  "ChangeLogCreate_init bid cf olds news ctype =
     (case cf of
        AsDict d \<Rightarrow>
          Inr \<lparr>book_id = bid, changed_fields = d, old_values = olds, new_values = news,
               change_type = ctype\<rparr>
      | AsList field_names \<Rightarrow> Inl ValidationError)"

section \<open>Content fingerprint (app/crawler/utils.py)\<close>

text \<open>
  \<open>generate_data_hash\<close> builds the dictionary of the five significant fields, with the
  defaults of \<open>data.get\<close>, and hashes its JSON text. The library part,
  \<open>hashlib.sha256(json.dumps(d, sort_keys=True).encode('utf-8')).hexdigest()\<close>, is the
  parameter \<open>digest\<close>.
\<close>

definition significant_fields :: "pydict \<Rightarrow> pydict" where
  "significant_fields data =
     [(''name'', dict_get data ''name'' (PyStr [])),
      (''price_including_tax'', dict_get data ''price_including_tax'' (PyInt 0)),
      (''price_excluding_tax'', dict_get data ''price_excluding_tax'' (PyInt 0)),
      (''availability'', dict_get data ''availability'' (PyStr [])),
      (''rating'', dict_get data ''rating'' (PyInt 0))]"

definition generate_data_hash :: "(pydict \<Rightarrow> string) \<Rightarrow> pydict \<Rightarrow> string" where
  "generate_data_hash digest data = digest (significant_fields data)"
section \<open>Repositories (app/database)\<close>

text \<open>
  A MongoDB collection is the list of its documents in insertion order; \<open>find_one\<close>
  and \<open>update_one\<close> act on the first document that matches the filter. The documents
  of \<open>books\<close> carry the fields of \<open>Book\<close>. The clock and the generator of identifiers
  are inputs: \<open>utcnow\<close> is the reading of \<open>datetime.utcnow()\<close> during one call,
  \<open>uuid4_book\<close> and \<open>uuid4_log\<close> are the results of \<open>str(uuid4())\<close> for a new book
  document and for a new change log entry. The driver and the server can refuse a new
  document for a reason that the model does not compute, such as its size:
  \<open>refuses_book\<close> and \<open>refuses_log\<close> tell which new documents they refuse.
\<close>

record runtime =
  utcnow :: nat
  uuid4_book :: string
  uuid4_log :: string
  refuses_book :: "Book \<Rightarrow> bool"
  refuses_log :: "ChangeLog \<Rightarrow> bool"

record database =
  books :: "Book list"
  change_logs :: "ChangeLog list"

text \<open>
  A document is encoded before it is sent. A Python \<open>int\<close> has no bound, and the encoder
  writes an integer in at most 8 bytes: an integer outside that range raises
  \<open>OverflowError\<close>, and nothing is written.
\<close>

definition fits_int64 :: "int \<Rightarrow> bool" where
  "fits_int64 n = (- (2 ^ 63) \<le> n \<and> n < 2 ^ 63)"

definition bson_error :: "pydict \<Rightarrow> error option" where
  "bson_error d =
     (if list_all (\<lambda>(k, v). case v of PyInt n \<Rightarrow> fits_int64 n | _ \<Rightarrow> True) d then None
      else Some OverflowError)"

text \<open>\<open>d[k] = v\<close> on a dictionary: the value of an existing key is replaced in place.\<close>

fun dict_set :: "pydict \<Rightarrow> string \<Rightarrow> pyval \<Rightarrow> pydict" where
  "dict_set [] k v = [(k, v)]"
| "dict_set ((k', v') # d) k v = (if k' = k then (k, v) # d else (k', v') # dict_set d k v)"

definition book_document ::
  "BookCreate \<Rightarrow> string \<Rightarrow> nat \<Rightarrow> string \<Rightarrow> string option \<Rightarrow> Book" where
  "book_document b i t st h =
     \<lparr>name = name b, description = description b, category = category b,
      price_including_tax = price_including_tax b, price_excluding_tax = price_excluding_tax b,
      availability = availability b, number_of_reviews = number_of_reviews b,
      image_url = image_url b, rating = rating b, source_url = source_url b,
      raw_html = raw_html b,
      doc_id = i, crawl_timestamp = t, status = st, data_hash = h\<rparr>"

definition find_one :: "(Book \<Rightarrow> bool) \<Rightarrow> Book list \<Rightarrow> (error + Book option)" where
  "find_one flt docs =
     (case find flt docs of
        None \<Rightarrow> Inr None
      | Some doc \<Rightarrow> (case Book_init doc of Inl e \<Rightarrow> Inl e | Inr b \<Rightarrow> Inr (Some b)))"

definition get_by_id :: "Book list \<Rightarrow> string \<Rightarrow> (error + Book option)" where
  "get_by_id docs bid = find_one (\<lambda>d. doc_id d = bid) docs"

definition get_by_url :: "Book list \<Rightarrow> string \<Rightarrow> (error + Book option)" where
  "get_by_url docs url = find_one (\<lambda>d. source_url d = url) docs"

text \<open>
  \<open>insert_one(book_dict)\<close> on the collection \<open>books\<close>: \<open>book_dict\<close> is the dictionary
  and \<open>doc\<close> the document it describes. \<open>init_database\<close> gives the collection unique
  indexes on \<open>id\<close> and on \<open>source_url\<close>: a document that repeats one of them is
  refused with \<open>DuplicateKeyError\<close>.
\<close>

definition insert_one ::
  "runtime \<Rightarrow> Book list \<Rightarrow> pydict \<Rightarrow> Book \<Rightarrow> error + Book list" where
  "insert_one rt docs book_dict doc =
     (case bson_error book_dict of
        Some e \<Rightarrow> Inl e
      | None \<Rightarrow>
          (if refuses_book rt doc then Inl WriteRefused
           else if list_ex (\<lambda>d. doc_id d = doc_id doc \<or> source_url d = source_url doc) docs
           then Inl DuplicateKeyError
           else Inr (docs @ [doc])))"

text \<open>
  \<open>update_one(filter, {"$set": fields})\<close>: the assignment of the fields is the function
  \<open>upd\<close>; the second component is \<open>modified_count\<close>, which counts a matched document
  only when the assignment changed it.
\<close>

fun update_one :: "(Book \<Rightarrow> bool) \<Rightarrow> (Book \<Rightarrow> Book) \<Rightarrow> Book list \<Rightarrow> Book list \<times> nat" where
  "update_one flt upd [] = ([], 0)"
| "update_one flt upd (d # ds) =
     (if flt d then (upd d # ds, if upd d = d then 0 else 1)
      else (case update_one flt upd ds of (ds', n) \<Rightarrow> (d # ds', n)))"

text \<open>
  \<open>BookRepository.update\<close>: \<open>update_data\<close> is the dictionary that the caller passes and
  \<open>assign\<close> the assignment of its fields to a document; the method adds the crawl
  timestamp to both.
\<close>

definition update ::
  "nat \<Rightarrow> Book list \<Rightarrow> string \<Rightarrow> pydict \<Rightarrow> (Book \<Rightarrow> Book)
     \<Rightarrow> (error + Book option) \<times> Book list" where
  "update now docs bid update_data assign =
     (case bson_error (dict_set update_data ''crawl_timestamp'' (PyDateTime now)) of
        Some e \<Rightarrow> (Inl e, docs)
      | None \<Rightarrow>
          (case update_one (\<lambda>d. doc_id d = bid)
                  (\<lambda>d. (assign d)\<lparr>crawl_timestamp := now\<rparr>) docs of
             (docs', modified_count) \<Rightarrow>
               (if modified_count > 0 then (get_by_id docs' bid, docs')
                else (Inr None, docs'))))"

definition upsert_by_url ::
  "(pydict \<Rightarrow> string) \<Rightarrow> runtime \<Rightarrow> Book list \<Rightarrow> BookCreate \<Rightarrow> (error + Book) \<times> Book list" where
  "upsert_by_url digest rt docs book_data =
     (case get_by_url docs (source_url book_data) of
        Inl e \<Rightarrow> (Inl e, docs)
      | Inr existing \<Rightarrow>
          (let book_dict = model_dump book_data
                 @ [(''crawl_timestamp'', PyDateTime (utcnow rt)), (''status'', PyStr ''active'')];
               h = generate_data_hash digest book_dict
           in case existing of
                Some ex \<Rightarrow>
                  (let doc = book_document book_data (doc_id ex) (utcnow rt) ''active'' (Some h)
                   in case bson_error
                             (book_dict @ [(''data_hash'', PyStr h), (''id'', PyStr (doc_id ex))]) of
                        Some e \<Rightarrow> (Inl e, docs)
                      | None \<Rightarrow>
                          (Book_init doc,
                           fst (update_one (\<lambda>d. source_url d = source_url book_data)
                                  (\<lambda>d. doc) docs)))
              | None \<Rightarrow>
                  (let doc = book_document book_data (uuid4_book rt) (utcnow rt) ''active'' (Some h)
                   in case insert_one rt docs
                             (book_dict
                                @ [(''data_hash'', PyStr h), (''id'', PyStr (uuid4_book rt))])
                             doc of
                        Inl e \<Rightarrow> (Inl e, docs)
                      | Inr docs' \<Rightarrow> (Book_init doc, docs'))))"

text \<open>
  \<open>ChangeLogRepository.create\<close>: the entry carries the three dictionaries of the change
  record, which are encoded with it.
\<close>

definition change_log_create ::
  "runtime \<Rightarrow> ChangeLog list \<Rightarrow> ChangeLogCreate \<Rightarrow> error + ChangeLog list" where
  "change_log_create rt logs change_log_data =
     (case bson_error (changed_fields change_log_data @ old_values change_log_data
                         @ new_values change_log_data) of
        Some e \<Rightarrow> Inl e
      | None \<Rightarrow>
          (let entry = ChangeLogCreate.extend change_log_data
                         (ChangeLog.fields (uuid4_log rt) (utcnow rt))
           in if refuses_log rt entry then Inl WriteRefused else Inr (logs @ [entry])))"

section \<open>Change detector (app/crawler/change_detector.py)\<close>

text \<open>
  \<open>_detect_changes\<close> fills three dictionaries, one comparison after the other:
  \<open>note_change\<close> is one of its \<open>if\<close> statements. The two price comparisons are made
  in floating point: \<open>exceeds_tolerance a b\<close> stands for the value of
  \<open>abs(a - b) > 0.01\<close> on the floats \<open>a\<close> and \<open>b\<close>. The rounding of that subtraction
  is not modelled, so the test is a parameter, as the digest is.
\<close>

type_synonym diff_acc = "pydict \<times> pydict \<times> pydict"

definition note_change :: "bool \<Rightarrow> string \<Rightarrow> pyval \<Rightarrow> pyval \<Rightarrow> diff_acc \<Rightarrow> diff_acc" where
  "note_change differs field old new acc =
     (if differs
      then (case acc of (changes, olds, news) \<Rightarrow>
              (changes @ [(field, PyBool True)], olds @ [(field, old)], news @ [(field, new)]))
      else acc)"

record change_info =
  ci_changed_fields :: "string list"
  ci_old_values :: pydict
  ci_new_values :: pydict

definition detect_changes ::
  "(real \<Rightarrow> real \<Rightarrow> bool) \<Rightarrow> Book \<Rightarrow> BookCreate \<Rightarrow> change_info option" where
  "detect_changes exceeds_tolerance old_book new_book_data =
     (let acc0 = ([], [], []);
          acc1 = note_change (name old_book \<noteq> name new_book_data) ''name''
                   (PyStr (name old_book)) (PyStr (name new_book_data)) acc0;
          acc2 = note_change
                   (exceeds_tolerance (price_including_tax old_book)
                      (price_including_tax new_book_data))
                   ''price_including_tax''
                   (PyFloat (price_including_tax old_book))
                   (PyFloat (price_including_tax new_book_data)) acc1;
          acc3 = note_change
                   (exceeds_tolerance (price_excluding_tax old_book)
                      (price_excluding_tax new_book_data))
                   ''price_excluding_tax''
                   (PyFloat (price_excluding_tax old_book))
                   (PyFloat (price_excluding_tax new_book_data)) acc2;
          acc4 = note_change (availability old_book \<noteq> availability new_book_data)
                   ''availability''
                   (PyStr (availability old_book)) (PyStr (availability new_book_data)) acc3;
          acc5 = note_change (rating old_book \<noteq> rating new_book_data) ''rating''
                   (PyInt (rating old_book)) (PyInt (rating new_book_data)) acc4;
          acc6 = note_change (description old_book \<noteq> description new_book_data)
                   ''description''
                   (py_opt_str (description old_book))
                   (py_opt_str (description new_book_data)) acc5;
          acc7 = note_change (number_of_reviews old_book \<noteq> number_of_reviews new_book_data)
                   ''number_of_reviews''
                   (PyInt (number_of_reviews old_book))
                   (PyInt (number_of_reviews new_book_data)) acc6
      in case acc7 of (changes, olds, news) \<Rightarrow>
           (if changes = [] then None
            else Some \<lparr>ci_changed_fields = map fst changes, ci_old_values = olds,
                       ci_new_values = news\<rparr>))"

text \<open>
  \<open>process_book\<close> returns the raised exception or the returned value, and the database
  as the call leaves it (a write made before an exception stays made).
\<close>

definition process_book ::
  "(pydict \<Rightarrow> string) \<Rightarrow> (real \<Rightarrow> real \<Rightarrow> bool) \<Rightarrow> runtime \<Rightarrow> database \<Rightarrow> BookCreate
     \<Rightarrow> (error + ChangeLogCreate option) \<times> database" where
  "process_book digest exceeds_tolerance rt db new_book_data =
     (case get_by_url (books db) (source_url new_book_data) of
        Inl e \<Rightarrow> (Inl e, db)
      | Inr None \<Rightarrow>
          (case upsert_by_url digest rt (books db) new_book_data of
             (Inl e, docs) \<Rightarrow> (Inl e, db\<lparr>books := docs\<rparr>)
           | (Inr book, docs) \<Rightarrow>
               (case ChangeLogCreate_init (doc_id book) (AsDict []) []
                       (model_dump new_book_data) ''new_book'' of
                  Inl e \<Rightarrow> (Inl e, db\<lparr>books := docs\<rparr>)
                | Inr change_log \<Rightarrow>
                    (case change_log_create rt (change_logs db) change_log of
                       Inl e \<Rightarrow> (Inl e, db\<lparr>books := docs\<rparr>)
                     | Inr logs \<Rightarrow>
                         (Inr (Some change_log), db\<lparr>books := docs, change_logs := logs\<rparr>))))
      | Inr (Some existing_book) \<Rightarrow>
          (let new_hash = generate_data_hash digest (model_dump new_book_data)
           in if data_hash existing_book = Some new_hash
              then (case update (utcnow rt) (books db) (doc_id existing_book)
                           [(''crawl_timestamp'', PyDateTime (utcnow rt))]
                           (\<lambda>d. d\<lparr>crawl_timestamp := utcnow rt\<rparr>) of
                      (Inl e, docs) \<Rightarrow> (Inl e, db\<lparr>books := docs\<rparr>)
                    | (Inr r, docs) \<Rightarrow> (Inr None, db\<lparr>books := docs\<rparr>))
              else
                (case detect_changes exceeds_tolerance existing_book new_book_data of
                   None \<Rightarrow> (Inr None, db)
                 | Some info \<Rightarrow>
                     (let ctype = determine_change_type (ci_changed_fields info)
                      in case update (utcnow rt) (books db) (doc_id existing_book)
                                (model_dump new_book_data @ [(''data_hash'', PyStr new_hash)])
                                (\<lambda>d. book_document new_book_data (doc_id d) (crawl_timestamp d)
                                        (status d) (Some new_hash)) of
                           (Inl e, docs) \<Rightarrow> (Inl e, db\<lparr>books := docs\<rparr>)
                         | (Inr r, docs) \<Rightarrow>
                             (case ChangeLogCreate_init (doc_id existing_book)
                                     (AsList (ci_changed_fields info))
                                     (ci_old_values info) (ci_new_values info) ctype of
                                Inl e \<Rightarrow> (Inl e, db\<lparr>books := docs\<rparr>)
                              | Inr change_log \<Rightarrow>
                                  (case change_log_create rt (change_logs db) change_log of
                                     Inl e \<Rightarrow> (Inl e, db\<lparr>books := docs\<rparr>)
                                   | Inr logs \<Rightarrow>
                                       (Inr (Some change_log),
                                        db\<lparr>books := docs, change_logs := logs\<rparr>)))))))"

section \<open>Crawler (app/crawler/crawler.py)\<close>

text \<open>
  One \<open>session.get(url)\<close> ends in a response with its status and body, in
  \<open>asyncio.TimeoutError\<close>, or in another exception (which includes a failure while the
  body is read). The site is an oracle with a state of its own: \<open>server\<close> answers a
  request and moves to its next state. The configuration (\<open>settings\<close>) and the
  BeautifulSoup selections are the other fields of the environment: each selection is a
  function of the markup and of the URL of the page, \<open>category_links\<close> being the one of
  \<open>get_all_categories\<close>. The three selections of links end in \<open>urljoin\<close>, which
  raises \<open>ValueError\<close> on a malformed link: they return an exception or a value.
  \<open>_parse_book_page\<close> catches its exceptions and returns \<open>None\<close> for them.
\<close>

datatype outcome = Response int string | TimeoutError | OtherException

record 's env =
  server :: "'s \<Rightarrow> string \<Rightarrow> outcome \<times> 's"
  base_url :: string
  retry_max_attempts :: int
  parse_book_page :: "string \<Rightarrow> string \<Rightarrow> BookCreate option"
  extract_book_urls_from_category :: "string \<Rightarrow> string \<Rightarrow> error + string list"
  get_next_page_url :: "string \<Rightarrow> string \<Rightarrow> error + string option"
  category_links :: "string \<Rightarrow> string \<Rightarrow> error + string list"

text \<open>
  The crawler object: its set \<open>visited_urls\<close> and the state of the site, with two
  histories that the code does not keep: \<open>requests\<close>, the URL of every
  \<open>session.get\<close> issued, and \<open>fetches\<close>, the URL of every call of
  \<open>_fetch_with_retry\<close>, oldest first.
\<close>

record 's crawler =
  visited_urls :: "string set"
  net :: 's
  requests :: "string list"
  fetches :: "string list"

definition new_crawler :: "'s \<Rightarrow> 's crawler" where
  "new_crawler s = \<lparr>visited_urls = {}, net = s, requests = [], fetches = []\<rparr>"

text \<open>
  The \<open>for attempt in range(max_attempts)\<close> loop, by the number of attempts left. Status
  200 returns the body, status 404 returns \<open>None\<close> at once, every other outcome goes to
  the next attempt (after a sleep, which changes no value); the exhausted loop returns
  \<open>None\<close>.
\<close>

fun attempts ::
  "('s \<Rightarrow> string \<Rightarrow> outcome \<times> 's) \<Rightarrow> string \<Rightarrow> nat \<Rightarrow> 's crawler \<Rightarrow> string option \<times> 's crawler" where
  "attempts srv url 0 c = (None, c)"
| "attempts srv url (Suc n) c =
     (case srv (net c) url of
        (out, s') \<Rightarrow>
          (let c' = c\<lparr>net := s', requests := requests c @ [url]\<rparr>
           in case out of
                Response st body \<Rightarrow>
                  (if st = 200 then (Some body, c')
                   else if st = 404 then (None, c')
                   else attempts srv url n c')
              | TimeoutError \<Rightarrow> attempts srv url n c'
              | OtherException \<Rightarrow> attempts srv url n c'))"

text \<open>\<open>max_attempts or settings.retry_max_attempts\<close>: \<open>None\<close> and 0 are false.\<close>

definition effective_max_attempts :: "'s env \<Rightarrow> int option \<Rightarrow> int" where
  "effective_max_attempts e max_attempts =
     (case max_attempts of
        None \<Rightarrow> retry_max_attempts e
      | Some k \<Rightarrow> (if k \<noteq> 0 then k else retry_max_attempts e))"

definition fetch_with_retry ::
  "'s env \<Rightarrow> string \<Rightarrow> int option \<Rightarrow> 's crawler \<Rightarrow> string option \<times> 's crawler" where
  "fetch_with_retry e url max_attempts c =
     attempts (server e) url (nat (effective_max_attempts e max_attempts))
       (c\<lparr>fetches := fetches c @ [url]\<rparr>)"

text \<open>\<open>if not html\<close>: \<open>None\<close> and the empty string are false.\<close>

definition no_html :: "string option \<Rightarrow> bool" where
  "no_html html = (case html of None \<Rightarrow> True | Some h \<Rightarrow> h = [])"

definition crawl_book :: "'s env \<Rightarrow> string \<Rightarrow> 's crawler \<Rightarrow> BookCreate option \<times> 's crawler" where
  "crawl_book e url c =
     (if url \<in> visited_urls c then (None, c)
      else (case fetch_with_retry e url None (c\<lparr>visited_urls := insert url (visited_urls c)\<rparr>) of
              (html, c') \<Rightarrow>
                (if no_html html then (None, c') else (parse_book_page e (the html) url, c'))))"

text \<open>
  \<open>asyncio.gather\<close> over the \<open>crawl_book\<close> tasks of one page, and the loop that keeps
  the results that are books. The tasks are started in the order of the list and each one
  tests and marks \<open>visited_urls\<close> before its first \<open>await\<close>, so which URLs are
  fetched is the same in every interleaving; the model runs the tasks one after the other.
\<close>

fun crawl_books :: "'s env \<Rightarrow> string list \<Rightarrow> 's crawler \<Rightarrow> BookCreate list \<times> 's crawler" where
  "crawl_books e [] c = ([], c)"
| "crawl_books e (url # urls) c =
     (case crawl_book e url c of
        (book, c') \<Rightarrow>
          (case crawl_books e urls c' of
             (page_books, c'') \<Rightarrow>
               ((case book of None \<Rightarrow> page_books | Some b \<Rightarrow> b # page_books), c'')))"

text \<open>
  The \<open>while current_url\<close> loop of \<open>crawl_category\<close>, with the list \<open>books\<close> and
  \<open>current_url\<close> as arguments. It ends with the list of books, or with the exception
  of a selection of links; the crawler keeps what the call did to it in both cases. The
  loop may run forever: the result \<open>None\<close> of the model is a call that does not return.
\<close>

partial_function (option) crawl_category_loop ::
  "'s env \<Rightarrow> BookCreate list \<Rightarrow> string option \<Rightarrow> 's crawler
     \<Rightarrow> ((error + BookCreate list) \<times> 's crawler) option" where
  "crawl_category_loop e books_acc current_url c =
     (case current_url of
        None \<Rightarrow> Some (Inr books_acc, c)
      | Some url \<Rightarrow>
          (if url = [] then Some (Inr books_acc, c)
           else if url \<in> visited_urls c then Some (Inr books_acc, c)
           else (case fetch_with_retry e url None
                        (c\<lparr>visited_urls := insert url (visited_urls c)\<rparr>) of
                   (html, c') \<Rightarrow>
                     (if no_html html then Some (Inr books_acc, c')
                      else (case extract_book_urls_from_category e (the html) url of
                              Inl err \<Rightarrow> Some (Inl err, c')
                            | Inr book_urls \<Rightarrow>
                                (case crawl_books e book_urls c' of
                                   (page_books, c'') \<Rightarrow>
                                     (case get_next_page_url e (the html) url of
                                        Inl err \<Rightarrow> Some (Inl err, c'')
                                      | Inr next_url \<Rightarrow>
                                          crawl_category_loop e (books_acc @ page_books)
                                            next_url c'')))))))"

declare crawl_category_loop.simps [code]

definition crawl_category ::
  "'s env \<Rightarrow> string \<Rightarrow> 's crawler \<Rightarrow> ((error + BookCreate list) \<times> 's crawler) option" where
  "crawl_category e category_url c = crawl_category_loop e [] (Some category_url) c"

definition get_all_categories ::
  "'s env \<Rightarrow> 's crawler \<Rightarrow> (error + string list) \<times> 's crawler" where
  "get_all_categories e c =
     (case fetch_with_retry e (base_url e) None c of
        (html, c') \<Rightarrow>
          (if no_html html then (Inr [], c')
           else (category_links e (the html) (base_url e), c')))"

text \<open>
  The \<open>for category_url in categories\<close> loop of \<open>crawl_all\<close>: the exception of a
  category is caught and logged, its books are dropped, and the loop goes on.
\<close>

fun crawl_categories ::
  "'s env \<Rightarrow> string list \<Rightarrow> BookCreate list \<Rightarrow> 's crawler
     \<Rightarrow> (BookCreate list \<times> 's crawler) option" where
  "crawl_categories e [] all_books c = Some (all_books, c)"
| "crawl_categories e (category_url # rest) all_books c =
     (case crawl_category e category_url c of
        None \<Rightarrow> None
      | Some (Inl err, c') \<Rightarrow> crawl_categories e rest all_books c'
      | Some (Inr bs, c') \<Rightarrow> crawl_categories e rest (all_books @ bs) c')"

text \<open>
  \<open>crawl_all\<close> calls \<open>get_all_categories\<close> outside its \<open>try\<close>: an
  exception of the selection of category links is the exception of the run.
\<close>

definition crawl_all ::
  "'s env \<Rightarrow> 's crawler \<Rightarrow> ((error + BookCreate list) \<times> 's crawler) option" where
  "crawl_all e c =
     (case get_all_categories e c of
        (Inl err, c') \<Rightarrow> Some (Inl err, c')
      | (Inr categories, c') \<Rightarrow>
          (case crawl_categories e categories [] c' of
             None \<Rightarrow> None
           | Some (all_books, c'') \<Rightarrow> Some (Inr all_books, c'')))"

section \<open>Sample data\<close>

text \<open>
  The book of tests/test\_change\_detector.py, a digest that tells its fingerprint from
  every other one, three readings of the clock and of the identifier generator (with a
  database that refuses no document), and the database after the first \<open>process_book\<close>
  of that book.
\<close>

definition test_book :: BookCreate where
  "test_book =
     \<lparr>name = ''Test Book'', description = None, category = ''Fiction'',
      price_including_tax = 19.99, price_excluding_tax = 19.99,
      availability = ''In stock'', number_of_reviews = 0, image_url = None, rating = 4,
      source_url = ''https://books.toscrape.com/test-book.html'', raw_html = None\<rparr>"

definition sample_digest :: "pydict \<Rightarrow> string" where
  "sample_digest d =
     (if d = significant_fields (model_dump test_book) then ''digest-a'' else ''digest-b'')"

text \<open>
  The exact comparison of two prices with the tolerance. At the prices of the samples
  (19.99 against 19.99, 19.995 and 15.99) the comparison of the floats has the same value.
\<close>

definition sample_exceeds_tolerance :: "real \<Rightarrow> real \<Rightarrow> bool" where
  "sample_exceeds_tolerance a b = (\<bar>a - b\<bar> > 0.01)"

definition runtime_1 :: runtime where
  "runtime_1 =
     \<lparr>utcnow = 1, uuid4_book = ''book-1'', uuid4_log = ''log-1'',
      refuses_book = (\<lambda>d. False), refuses_log = (\<lambda>l. False)\<rparr>"

definition runtime_2 :: runtime where
  "runtime_2 =
     \<lparr>utcnow = 2, uuid4_book = ''book-2'', uuid4_log = ''log-2'',
      refuses_book = (\<lambda>d. False), refuses_log = (\<lambda>l. False)\<rparr>"

definition runtime_3 :: runtime where
  "runtime_3 =
     \<lparr>utcnow = 3, uuid4_book = ''book-3'', uuid4_log = ''log-3'',
      refuses_book = (\<lambda>d. False), refuses_log = (\<lambda>l. False)\<rparr>"

definition empty_database :: database where
  "empty_database = \<lparr>books = [], change_logs = []\<rparr>"

definition seeded_database :: database where
  "seeded_database =
     snd (process_book sample_digest sample_exceeds_tolerance runtime_1 empty_database test_book)"

text \<open>The stored document of \<open>seeded_database\<close>.\<close>

definition stored_test_book :: Book where
  "stored_test_book = book_document test_book ''book-1'' 1 ''active'' (Some ''digest-a'')"

text \<open>Re-crawled versions of the book.\<close>

definition test_book_repriced :: BookCreate where
  "test_book_repriced = test_book\<lparr>price_including_tax := 15.99, price_excluding_tax := 15.99\<rparr>"

definition test_book_repriced_sold_out :: BookCreate where
  "test_book_repriced_sold_out = test_book_repriced\<lparr>availability := ''Out of stock''\<rparr>"

definition test_book_reviewed :: BookCreate where
  "test_book_reviewed =
     test_book\<lparr>description := Some ''A new blurb'', number_of_reviews := 3\<rparr>"

definition test_book_half_penny :: BookCreate where
  "test_book_half_penny = test_book\<lparr>price_including_tax := 19.995\<rparr>"

text \<open>
  Sample sites. A site without a state answers from a table of pages and with status 404
  elsewhere. The markup of a sample page is a short name, and the selections read it from
  tables.
\<close>

definition static_server :: "(string \<times> outcome) list \<Rightarrow> unit \<Rightarrow> string \<Rightarrow> outcome \<times> unit" where
  "static_server pages s url =
     ((case map_of pages url of None \<Rightarrow> Response 404 [] | Some out \<Rightarrow> out), s)"

definition sample_env :: "(string \<times> outcome) list \<Rightarrow> unit env" where
  "sample_env pages =
     \<lparr>server = static_server pages,
      base_url = ''http://site'',
      retry_max_attempts = 3,
      parse_book_page =
        (\<lambda>html url. if html = ''BOOK'' then Some (test_book\<lparr>source_url := url\<rparr>) else None),
      extract_book_urls_from_category =
        (\<lambda>html url.
           if html = ''PAGE-1'' then Inr [''http://site/b1'', ''http://site/b1'']
           else if html = ''PAGE-2'' then Inr [''http://site/b1'', ''http://site/b2'']
           else Inr []),
      get_next_page_url =
        (\<lambda>html url.
           if html = ''PAGE-1'' then Inr (Some ''http://site/c/page-2'')
           else if html = ''PAGE-2'' then Inr (Some ''http://site/c/page-1'')
           else Inr None),
      category_links =
        (\<lambda>html url.
           if html = ''ROOT'' then Inr [''http://site/c/page-1'']
           else if html = ''ROOT-SELF'' then Inr [''http://site'']
           else if html = ''ROOT-BAD-LINK'' then Inl ValueError
           else Inr [])\<rparr>"

text \<open>
  A category of two pages whose second page names the first as its next page; the first
  page links the same book twice, the second links it again and a book that is gone.
\<close>

definition cyclic_site :: "unit env" where
  "cyclic_site =
     sample_env
       [(''http://site'', Response 200 ''ROOT''),
        (''http://site/c/page-1'', Response 200 ''PAGE-1''),
        (''http://site/c/page-2'', Response 200 ''PAGE-2''),
        (''http://site/b1'', Response 200 ''BOOK'')]"

text \<open>A root page whose one category link is the root URL itself.\<close>

definition self_linking_site :: "unit env" where
  "self_linking_site = sample_env [(''http://site'', Response 200 ''ROOT-SELF'')]"

text \<open>A site that answers every request with status 500.\<close>

definition failing_site :: "unit env" where
  "failing_site = (sample_env [])\<lparr>server := (\<lambda>s url. (Response 500 [], s))\<rparr>"


text \<open>
  A site that answers every URL with a page whose next page is a new URL: the URL of the
  page, one character longer.
\<close>

definition endless_site :: "unit env" where
  "endless_site =
     (sample_env [])\<lparr>server := (\<lambda>s url. (Response 200 ''PAGE'', s)),
                      get_next_page_url := (\<lambda>html url. Inr (Some (url @ ''+'')))\<rparr>"


section \<open>Properties of the star-rating mapping\<close>

text \<open>\<open>str_contains text key\<close> is the substring test: \<open>key\<close> is a contiguous part of \<open>text\<close>.\<close>

lemma str_contains_sublist: "str_contains t k \<longleftrightarrow> sublist k t"
proof (induction t)
  case Nil
  then show ?case by auto
next
  case (Cons a t)
  have "sublist k (a # t) \<longleftrightarrow> prefix k (a # t) \<or> sublist k t"
    by (rule sublist_Cons_right)
  with Cons show ?case by simp
qed

lemma rating_scan_range:
  "(\<And>k v. (k, v) \<in> set m \<Longrightarrow> 0 \<le> v \<and> v \<le> 5) \<Longrightarrow> 0 \<le> rating_scan m t \<and> rating_scan m t \<le> 5"
  by (induction m t rule: rating_scan.induct) auto

lemma rating_scan_first:
  "str_contains t k \<Longrightarrow> \<forall>(k', v') \<in> set pre. \<not> str_contains t k'
     \<Longrightarrow> rating_scan (pre @ (k, v) # post) t = v"
  by (induction pre) auto

lemma rating_scan_none:
  "\<forall>(k', v') \<in> set m. \<not> str_contains t k' \<Longrightarrow> rating_scan m t = 0"
  by (induction m) auto

lemma rating_map_split:
  "(k, v) \<in> set rating_map \<Longrightarrow>
     \<exists>pre post. rating_map = pre @ (k, v) # post \<and> (\<forall>(k', v') \<in> set pre. v' < v)"
proof -
  assume "(k, v) \<in> set rating_map"
  then consider "(k, v) = (''zero'', 0)" | "(k, v) = (''one'', 1)" | "(k, v) = (''two'', 2)"
    | "(k, v) = (''three'', 3)" | "(k, v) = (''four'', 4)" | "(k, v) = (''five'', 5)"
    unfolding rating_map_def by fastforce
  then show ?thesis
  proof cases
    case 1
    then have "rating_map = [] @ (k, v) # tl rating_map" by (simp add: rating_map_def)
    then show ?thesis by fastforce
  next
    case 2
    then have "rating_map = take 1 rating_map @ (k, v) # drop 2 rating_map"
      "\<forall>(k', v') \<in> set (take 1 rating_map). v' < v" by (simp_all add: rating_map_def)
    then show ?thesis by blast
  next
    case 3
    then have "rating_map = take 2 rating_map @ (k, v) # drop 3 rating_map"
      "\<forall>(k', v') \<in> set (take 2 rating_map). v' < v" by (simp_all add: rating_map_def)
    then show ?thesis by blast
  next
    case 4
    then have "rating_map = take 3 rating_map @ (k, v) # drop 4 rating_map"
      "\<forall>(k', v') \<in> set (take 3 rating_map). v' < v" by (simp_all add: rating_map_def)
    then show ?thesis by blast
  next
    case 5
    then have "rating_map = take 4 rating_map @ (k, v) # drop 5 rating_map"
      "\<forall>(k', v') \<in> set (take 4 rating_map). v' < v" by (simp_all add: rating_map_def)
    then show ?thesis by blast
  next
    case 6
    then have "rating_map = take 5 rating_map @ (k, v) # drop 6 rating_map"
      "\<forall>(k', v') \<in> set (take 5 rating_map). v' < v" by (simp_all add: rating_map_def)
    then show ?thesis by blast
  qed
qed


text \<open>
  Claim C9, as the code has it: \<open>rating_to_int\<close> returns the value of the first word of
  the table (in the order zero, one, two, three, four, five) that occurs as a substring of
  the lower-cased, stripped input, it returns 0 when no word of the table occurs in it, and
  the result always lies between 0 and 5.
\<close>

theorem rating_to_int_first_match:
  "((k, v) \<in> set rating_map \<and> str_contains (strip (lower t)) k
      \<and> (\<forall>(k', v') \<in> set rating_map. v' < v \<longrightarrow> \<not> str_contains (strip (lower t)) k')
      \<longrightarrow> rating_to_int t = v)
   \<and> ((\<forall>(k', v') \<in> set rating_map. \<not> str_contains (strip (lower t)) k') \<longrightarrow> rating_to_int t = 0)
   \<and> 0 \<le> rating_to_int t \<and> rating_to_int t \<le> 5"
proof (intro conjI impI)
  assume H: "(k, v) \<in> set rating_map \<and> str_contains (strip (lower t)) k
      \<and> (\<forall>(k', v') \<in> set rating_map. v' < v \<longrightarrow> \<not> str_contains (strip (lower t)) k')"
  then obtain pre post where sp: "rating_map = pre @ (k, v) # post"
    and lt: "\<forall>(k', v') \<in> set pre. v' < v"
    using rating_map_split by blast
  have "set pre \<subseteq> set rating_map" by (subst sp) auto
  with H lt have "\<forall>(k', v') \<in> set pre. \<not> str_contains (strip (lower t)) k'" by blast
  with H have "rating_scan (pre @ (k, v) # post) (strip (lower t)) = v"
    by (simp add: rating_scan_first)
  with sp show "rating_to_int t = v" by (simp add: rating_to_int_def)
next
  assume "\<forall>(k', v') \<in> set rating_map. \<not> str_contains (strip (lower t)) k'"
  then show "rating_to_int t = 0"
    by (simp add: rating_to_int_def rating_scan_none)
next
  have "\<And>k v. (k, v) \<in> set rating_map \<Longrightarrow> 0 \<le> v \<and> v \<le> 5"
    by (auto simp: rating_map_def)
  then have "0 \<le> rating_scan rating_map (strip (lower t))
      \<and> rating_scan rating_map (strip (lower t)) \<le> 5"
    by (rule rating_scan_range)
  then show "0 \<le> rating_to_int t" "rating_to_int t \<le> 5"
    by (simp_all add: rating_to_int_def)
qed

text \<open>
  The theorem at two inputs: a class attribute that holds the word three, and a text that
  holds no word of the table.
\<close>

theorem rating_to_int_first_match_witness:
  "rating_to_int ''star-rating Three'' = 3 \<and> rating_to_int ''unknown'' = 0"
proof -
  have a: "(''three'', 3) \<in> set rating_map
      \<and> str_contains (strip (lower ''star-rating Three'')) ''three''
      \<and> (\<forall>(k', v') \<in> set rating_map.
            v' < 3 \<longrightarrow> \<not> str_contains (strip (lower ''star-rating Three'')) k')"
    by code_simp
  have b: "\<forall>(k', v') \<in> set rating_map. \<not> str_contains (strip (lower ''unknown'')) k'"
    by code_simp
  have "rating_to_int ''star-rating Three'' = 3"
    using rating_to_int_first_match [of "''three''" 3 "''star-rating Three''", THEN conjunct1] a
    by (rule mp)
  moreover have "rating_to_int ''unknown'' = 0"
    using rating_to_int_first_match [of "''three''" 3 "''unknown''",
        THEN conjunct2, THEN conjunct1] b
    by (rule mp)
  ultimately show ?thesis by (rule conjI)
qed

text \<open>
  Claim C9 as stated (0 for every string that is not a word of the table) fails: the text
  \<open>none\<close> is not a key of the table, and the substring test finds the word one in it.
\<close>

theorem rating_to_int_unrecognized_counterexample:
  "''none'' \<notin> fst ` set rating_map \<and> rating_to_int ''none'' \<noteq> 0"
  by code_simp

section \<open>Properties of the change detector\<close>

subsection \<open>The field comparison\<close>

lemma note_change_fst:
  "map fst (fst (note_change c f ov nv acc)) = map fst (fst acc) @ (if c then [f] else [])"
  by (cases acc) (simp add: note_change_def)

lemma detect_changes_fields:
  assumes "detect_changes ex old new = Some info"
  shows "ci_changed_fields info =
     (if name old \<noteq> name new then [''name''] else [])
     @ (if ex (price_including_tax old) (price_including_tax new)
        then [''price_including_tax''] else [])
     @ (if ex (price_excluding_tax old) (price_excluding_tax new)
        then [''price_excluding_tax''] else [])
     @ (if availability old \<noteq> availability new then [''availability''] else [])
     @ (if rating old \<noteq> rating new then [''rating''] else [])
     @ (if description old \<noteq> description new then [''description''] else [])
     @ (if number_of_reviews old \<noteq> number_of_reviews new then [''number_of_reviews''] else [])"
proof -
  let ?acc = "note_change (number_of_reviews old \<noteq> number_of_reviews new)
                   ''number_of_reviews''
                   (PyInt (number_of_reviews old))
                   (PyInt (number_of_reviews new)) (note_change (description old \<noteq> description new)
                   ''description''
                   (py_opt_str (description old))
                   (py_opt_str (description new)) (note_change (rating old \<noteq> rating new) ''rating''
                   (PyInt (rating old)) (PyInt (rating new)) (note_change (availability old \<noteq> availability new)
                   ''availability''
                   (PyStr (availability old)) (PyStr (availability new)) (note_change
                   (ex (price_excluding_tax old) (price_excluding_tax new))
                   ''price_excluding_tax''
                   (PyFloat (price_excluding_tax old))
                   (PyFloat (price_excluding_tax new)) (note_change
                   (ex (price_including_tax old) (price_including_tax new))
                   ''price_including_tax''
                   (PyFloat (price_including_tax old))
                   (PyFloat (price_including_tax new)) (note_change (name old \<noteq> name new) ''name''
                   (PyStr (name old)) (PyStr (name new)) ([], [], [])))))))"
  from assms have "ci_changed_fields info = map fst (fst ?acc)"
    unfolding detect_changes_def Let_def
    by (cases ?acc) (auto split: if_splits)
  then show ?thesis by (simp only: note_change_fst fst_conv list.map append_Nil append_assoc)
qed

lemma detect_changes_None_iff:
  "detect_changes ex old new = None \<longleftrightarrow>
     name old = name new
     \<and> \<not> ex (price_including_tax old) (price_including_tax new)
     \<and> \<not> ex (price_excluding_tax old) (price_excluding_tax new)
     \<and> availability old = availability new
     \<and> rating old = rating new
     \<and> description old = description new
     \<and> number_of_reviews old = number_of_reviews new"
proof -
  let ?acc = "note_change (number_of_reviews old \<noteq> number_of_reviews new)
                   ''number_of_reviews''
                   (PyInt (number_of_reviews old))
                   (PyInt (number_of_reviews new)) (note_change (description old \<noteq> description new)
                   ''description''
                   (py_opt_str (description old))
                   (py_opt_str (description new)) (note_change (rating old \<noteq> rating new) ''rating''
                   (PyInt (rating old)) (PyInt (rating new)) (note_change (availability old \<noteq> availability new)
                   ''availability''
                   (PyStr (availability old)) (PyStr (availability new)) (note_change
                   (ex (price_excluding_tax old) (price_excluding_tax new))
                   ''price_excluding_tax''
                   (PyFloat (price_excluding_tax old))
                   (PyFloat (price_excluding_tax new)) (note_change
                   (ex (price_including_tax old) (price_including_tax new))
                   ''price_including_tax''
                   (PyFloat (price_including_tax old))
                   (PyFloat (price_including_tax new)) (note_change (name old \<noteq> name new) ''name''
                   (PyStr (name old)) (PyStr (name new)) ([], [], [])))))))"
  have "detect_changes ex old new = None \<longleftrightarrow> map fst (fst ?acc) = []"
    unfolding detect_changes_def Let_def
    by (cases ?acc) (auto split: if_splits)
  also have "\<dots> \<longleftrightarrow> name old = name new
     \<and> \<not> ex (price_including_tax old) (price_including_tax new)
     \<and> \<not> ex (price_excluding_tax old) (price_excluding_tax new)
     \<and> availability old = availability new
     \<and> rating old = rating new
     \<and> description old = description new
     \<and> number_of_reviews old = number_of_reviews new"
    by (simp only: note_change_fst fst_conv list.map append_Nil append_assoc) auto
  finally show ?thesis .
qed

subsection \<open>The repositories\<close>

lemma find_Some_mem: "find P xs = Some x \<Longrightarrow> x \<in> set xs \<and> P x"
  by (induction xs) (auto split: if_splits)

lemma find_distinct_key:
  "distinct (map f xs) \<Longrightarrow> x \<in> set xs \<Longrightarrow> find (\<lambda>d. f d = f x) xs = Some x"
  by (induction xs) (auto simp: image_iff)

lemma get_by_url_absent:
  "\<forall>d \<in> set docs. source_url d \<noteq> url \<Longrightarrow> get_by_url docs url = Inr None"
proof -
  assume "\<forall>d \<in> set docs. source_url d \<noteq> url"
  then have "find (\<lambda>d. source_url d = url) docs = None"
    by (induction docs) auto
  then show ?thesis by (simp add: get_by_url_def find_one_def)
qed

lemma find_one_found:
  "find flt docs = Some d \<Longrightarrow> 0 \<le> rating d \<Longrightarrow> rating d \<le> 5 \<Longrightarrow> find_one flt docs = Inr (Some d)"
  by (simp add: find_one_def Book_init_def)

lemma update_one_find:
  "(\<And>d. flt (upd d) = flt d) \<Longrightarrow>
     find flt (fst (update_one flt upd docs)) = map_option upd (find flt docs)"
proof (induction docs)
  case Nil
  then show ?case by simp
next
  case (Cons a docs)
  show ?case
  proof (cases "flt a")
    case True
    then show ?thesis using Cons.prems by simp
  next
    case False
    obtain ds n where u: "update_one flt upd docs = (ds, n)" by (cases "update_one flt upd docs")
    with Cons False show ?thesis by simp
  qed
qed

lemma update_one_map:
  "(\<And>d. f (upd d) = f d) \<Longrightarrow> map f (fst (update_one flt upd docs)) = map f docs"
proof (induction docs)
  case Nil
  then show ?case by simp
next
  case (Cons a docs)
  obtain ds n where u: "update_one flt upd docs = (ds, n)" by (cases "update_one flt upd docs")
  with Cons show ?case by simp
qed

lemma significant_fields_model_dump:
  "significant_fields (model_dump b @ extra) =
     [(''name'', PyStr (name b)),
      (''price_including_tax'', PyFloat (price_including_tax b)),
      (''price_excluding_tax'', PyFloat (price_excluding_tax b)),
      (''availability'', PyStr (availability b)),
      (''rating'', PyInt (rating b))]"
  by (simp add: significant_fields_def model_dump_def dict_get_def)

lemma generate_data_hash_model_dump:
  "generate_data_hash digest (model_dump b @ extra) = generate_data_hash digest (model_dump b)"
  using significant_fields_model_dump [of b extra] significant_fields_model_dump [of b "[]"]
  by (simp add: generate_data_hash_def)

lemma bson_error_model_dump:
  "bson_error (model_dump b @ extra) = None \<longleftrightarrow>
     fits_int64 (number_of_reviews b) \<and> fits_int64 (rating b) \<and> bson_error extra = None"
  by (auto simp add: bson_error_def model_dump_def py_opt_str_def split: option.splits)

lemma bson_error_update_dict:
  "bson_error (dict_set (model_dump b @ [(''data_hash'', PyStr h)]) ''crawl_timestamp''
                 (PyDateTime now)) = None \<longleftrightarrow>
     fits_int64 (number_of_reviews b) \<and> fits_int64 (rating b)"
  by (auto simp add: bson_error_def model_dump_def py_opt_str_def split: option.splits)

lemma bson_error_timestamp:
  "bson_error (dict_set [(''crawl_timestamp'', PyDateTime t)] ''crawl_timestamp''
                 (PyDateTime now)) = None"
  by (simp add: bson_error_def)

lemma update_found:
  assumes f: "find (\<lambda>d. doc_id d = bid) docs = Some old"
    and enc: "bson_error (dict_set update_data ''crawl_timestamp'' (PyDateTime now)) = None"
    and idp: "\<And>d. doc_id (assign d) = doc_id d"
    and r0: "0 \<le> rating (assign old)" and r5: "rating (assign old) \<le> 5"
  shows "\<exists>r. fst (update now docs bid update_data assign) = Inr r"
proof -
  define upd where "upd = (\<lambda>d. (assign d)\<lparr>crawl_timestamp := now\<rparr>)"
  define flt where "flt = (\<lambda>d::Book. doc_id d = bid)"
  obtain docs' n where u: "update_one flt upd docs = (docs', n)"
    by (cases "update_one flt upd docs")
  have "\<And>d. flt (upd d) = flt d" by (simp add: flt_def upd_def idp)
  then have "find flt (fst (update_one flt upd docs)) = map_option upd (find flt docs)"
    by (rule update_one_find)
  with u f have "find flt docs' = Some (upd old)" by (simp add: flt_def)
  moreover have "0 \<le> rating (upd old)" "rating (upd old) \<le> 5"
    using r0 r5 by (simp_all add: upd_def)
  ultimately have fo: "find_one flt docs' = Inr (Some (upd old))"
    by (rule find_one_found)
  have "update now docs bid update_data assign
          = (if n > 0 then (get_by_id docs' bid, docs') else (Inr None, docs'))"
    using u enc by (simp add: update_def flt_def upd_def)
  with fo show ?thesis by (simp add: get_by_id_def flt_def)
qed

lemma snd_update:
  "bson_error (dict_set update_data ''crawl_timestamp'' (PyDateTime now)) = None \<Longrightarrow>
   snd (update now docs bid update_data assign)
     = fst (update_one (\<lambda>d. doc_id d = bid) (\<lambda>d. (assign d)\<lparr>crawl_timestamp := now\<rparr>) docs)"
  by (simp add: update_def split: prod.splits)

subsection \<open>Processing one book\<close>

lemma get_by_url_found:
  "find (\<lambda>d. source_url d = url) docs = Some old \<Longrightarrow> 0 \<le> rating old \<Longrightarrow> rating old \<le> 5
     \<Longrightarrow> get_by_url docs url = Inr (Some old)"
  by (simp add: get_by_url_def find_one_found)

lemma fits_int64_rating: "0 \<le> r \<Longrightarrow> r \<le> 5 \<Longrightarrow> fits_int64 r"
  by (simp add: fits_int64_def)

lemma list_ex_absent:
  "\<forall>d \<in> set docs. \<not> P d \<Longrightarrow> \<not> list_ex P docs"
  by (simp add: list_ex_iff)

lemma upsert_by_url_new:
  assumes absent: "\<forall>d \<in> set docs. source_url d \<noteq> source_url item"
    and r0: "0 \<le> rating item" and r5: "rating item \<le> 5"
    and reviews: "fits_int64 (number_of_reviews item)"
    and fresh: "\<forall>d \<in> set docs. doc_id d \<noteq> uuid4_book rt"
    and accepts_book:
      "\<not> refuses_book rt
          (book_document item (uuid4_book rt) (utcnow rt) ''active''
             (Some (generate_data_hash digest (model_dump item))))"
  shows "upsert_by_url digest rt docs item =
     (Inr (book_document item (uuid4_book rt) (utcnow rt) ''active''
             (Some (generate_data_hash digest (model_dump item)))),
      docs @ [book_document item (uuid4_book rt) (utcnow rt) ''active''
                (Some (generate_data_hash digest (model_dump item)))])"
proof -
  let ?h = "generate_data_hash digest (model_dump item)"
  let ?doc = "book_document item (uuid4_book rt) (utcnow rt) ''active'' (Some ?h)"
  have g: "get_by_url docs (source_url item) = Inr None"
    using absent by (rule get_by_url_absent)
  have fr: "fits_int64 (rating item)" using r0 r5 by (rule fits_int64_rating)
  have enc: "bson_error (model_dump item
               @ [(''crawl_timestamp'', PyDateTime (utcnow rt)), (''status'', PyStr ''active''),
                  (''data_hash'', PyStr ?h), (''id'', PyStr (uuid4_book rt))]) = None"
    using reviews fr by (simp add: bson_error_model_dump) (simp add: bson_error_def)
  have "\<forall>d \<in> set docs. \<not> (doc_id d = doc_id ?doc \<or> source_url d = source_url ?doc)"
    using absent fresh by (simp add: book_document_def)
  then have dup: "\<not> list_ex (\<lambda>d. doc_id d = doc_id ?doc \<or> source_url d = source_url ?doc) docs"
    by (rule list_ex_absent)
  have ins: "insert_one rt docs
               (model_dump item
                 @ [(''crawl_timestamp'', PyDateTime (utcnow rt)), (''status'', PyStr ''active''),
                    (''data_hash'', PyStr ?h), (''id'', PyStr (uuid4_book rt))]) ?doc
             = Inr (docs @ [?doc])"
    using accepts_book dup by (simp add: insert_one_def enc)
  have bi: "Book_init ?doc = Inr ?doc"
    using r0 r5 by (simp add: Book_init_def book_document_def)
  show ?thesis
    by (simp add: upsert_by_url_def g Let_def generate_data_hash_model_dump ins bi)
qed

lemma change_log_create_new_book:
  assumes r0: "0 \<le> rating item" and r5: "rating item \<le> 5"
    and reviews: "fits_int64 (number_of_reviews item)"
    and accepts_log:
      "\<not> refuses_log rt
          \<lparr>book_id = bid, changed_fields = [], old_values = [],
           new_values = model_dump item, change_type = ''new_book'',
           log_id = uuid4_log rt, timestamp = utcnow rt\<rparr>"
  shows "change_log_create rt logs
              \<lparr>book_id = bid, changed_fields = [], old_values = [],
               new_values = model_dump item, change_type = ''new_book''\<rparr>
            = Inr (logs
                @ [\<lparr>book_id = bid, changed_fields = [], old_values = [],
                     new_values = model_dump item, change_type = ''new_book'',
                     log_id = uuid4_log rt, timestamp = utcnow rt\<rparr>])"
proof -
  have fr: "fits_int64 (rating item)" using r0 r5 by (rule fits_int64_rating)
  have enc2: "bson_error (model_dump item) = None"
    using reviews fr bson_error_model_dump [of item "[]"] by (simp add: bson_error_def)
  show ?thesis
    using accepts_log
    by (simp add: change_log_create_def enc2 ChangeLogCreate.defs ChangeLog.defs)
qed

lemma bson_error_cases: "bson_error d = None \<or> bson_error d = Some OverflowError"
  by (simp add: bson_error_def)

text \<open>
  A review count outside the 8-byte integers is accepted by \<open>BookCreate\<close> and refused by
  the encoder of the database: \<open>process_book\<close> raises and stores nothing.
\<close>

lemma process_book_new_item_overflow:
  assumes absent: "\<forall>d \<in> set (books db). source_url d \<noteq> source_url item"
    and reviews: "\<not> fits_int64 (number_of_reviews item)"
  shows "process_book digest exceeds_tolerance rt db item = (Inl OverflowError, db)"
proof -
  let ?h = "generate_data_hash digest (model_dump item)"
  let ?d = "model_dump item
               @ [(''crawl_timestamp'', PyDateTime (utcnow rt)), (''status'', PyStr ''active''),
                  (''data_hash'', PyStr ?h), (''id'', PyStr (uuid4_book rt))]"
  have g: "get_by_url (books db) (source_url item) = Inr None"
    using absent by (rule get_by_url_absent)
  have "bson_error ?d \<noteq> None"
    using reviews by (simp add: bson_error_model_dump)
  with bson_error_cases [of ?d] have enc: "bson_error ?d = Some OverflowError" by blast
  have u: "upsert_by_url digest rt (books db) item = (Inl OverflowError, books db)"
    by (simp add: upsert_by_url_def g Let_def generate_data_hash_model_dump insert_one_def enc)
  show ?thesis by (simp add: process_book_def g u)
qed




text \<open>
  The lists that \<open>_determine_change_type\<close> receives come from \<open>_detect_changes\<close>: when
  the price test of the code holds for a price and the availability differs, the list has
  both and its type is \<open>price_change\<close>.
\<close>

lemma detect_changes_price_and_availability:
  assumes "exceeds_tolerance (price_including_tax old) (price_including_tax new)
           \<or> exceeds_tolerance (price_excluding_tax old) (price_excluding_tax new)"
    and "availability old \<noteq> availability new"
  shows "\<exists>info. detect_changes exceeds_tolerance old new = Some info
             \<and> ''availability'' \<in> set (ci_changed_fields info)
             \<and> determine_change_type (ci_changed_fields info) = ''price_change''"
proof -
  from assms have "detect_changes exceeds_tolerance old new \<noteq> None"
    by (simp add: detect_changes_None_iff)
  then obtain info where i: "detect_changes exceeds_tolerance old new = Some info" by blast
  from assms have av: "''availability'' \<in> set (ci_changed_fields info)"
    by (simp add: detect_changes_fields [OF i])
  from assms have "''price_including_tax'' \<in> set (ci_changed_fields info)
      \<or> ''price_excluding_tax'' \<in> set (ci_changed_fields info)"
    by (auto simp: detect_changes_fields [OF i])
  then have "determine_change_type (ci_changed_fields info) = ''price_change''"
    by (simp add: determine_change_type_def)
  with i av show ?thesis by blast
qed

text \<open>
  Claim C2: \<open>_determine_change_type\<close> classifies by first match: a price field gives
  \<open>price_change\<close>; otherwise availability gives \<open>availability_change\<close>; otherwise name
  or description gives \<open>metadata_change\<close>; otherwise rating gives \<open>rating_change\<close>;
  otherwise \<open>other_change\<close>. In particular, a list of changed fields with a price and
  the availability is classified \<open>price_change\<close>, not \<open>availability_change\<close>.
\<close>

theorem determine_change_type_priority:
  "(''price_including_tax'' \<in> set cf \<or> ''price_excluding_tax'' \<in> set cf
      \<longrightarrow> determine_change_type cf = ''price_change'')
   \<and> (''price_including_tax'' \<notin> set cf \<and> ''price_excluding_tax'' \<notin> set cf
        \<and> ''availability'' \<in> set cf
      \<longrightarrow> determine_change_type cf = ''availability_change'')
   \<and> (''price_including_tax'' \<notin> set cf \<and> ''price_excluding_tax'' \<notin> set cf
        \<and> ''availability'' \<notin> set cf \<and> (''name'' \<in> set cf \<or> ''description'' \<in> set cf)
      \<longrightarrow> determine_change_type cf = ''metadata_change'')
   \<and> (''price_including_tax'' \<notin> set cf \<and> ''price_excluding_tax'' \<notin> set cf
        \<and> ''availability'' \<notin> set cf \<and> ''name'' \<notin> set cf \<and> ''description'' \<notin> set cf
        \<and> ''rating'' \<in> set cf
      \<longrightarrow> determine_change_type cf = ''rating_change'')
   \<and> (''price_including_tax'' \<notin> set cf \<and> ''price_excluding_tax'' \<notin> set cf
        \<and> ''availability'' \<notin> set cf \<and> ''name'' \<notin> set cf \<and> ''description'' \<notin> set cf
        \<and> ''rating'' \<notin> set cf
      \<longrightarrow> determine_change_type cf = ''other_change'')
   \<and> ((''price_including_tax'' \<in> set cf \<or> ''price_excluding_tax'' \<in> set cf)
        \<and> ''availability'' \<in> set cf
      \<longrightarrow> determine_change_type cf = ''price_change''
          \<and> determine_change_type cf \<noteq> ''availability_change'')"
  by (simp add: determine_change_type_def)

text \<open>The theorem at one list of field names for each branch, and at the list of a repriced,
  sold-out book.\<close>

theorem determine_change_type_priority_witness:
  "determine_change_type [''price_excluding_tax'', ''availability'', ''rating''] = ''price_change''
   \<and> determine_change_type [''availability'', ''name''] = ''availability_change''
   \<and> determine_change_type [''rating'', ''description''] = ''metadata_change''
   \<and> determine_change_type [''rating'', ''number_of_reviews''] = ''rating_change''
   \<and> determine_change_type [''number_of_reviews''] = ''other_change''
   \<and> determine_change_type [''price_including_tax'', ''price_excluding_tax'', ''availability'']
       = ''price_change''
   \<and> determine_change_type [''price_including_tax'', ''price_excluding_tax'', ''availability'']
       \<noteq> ''availability_change''"
proof -
  have 1: "determine_change_type [''price_excluding_tax'', ''availability'', ''rating'']
      = ''price_change''"
    using determine_change_type_priority
      [of "[''price_excluding_tax'', ''availability'', ''rating'']", THEN conjunct1]
    by simp
  have 2: "determine_change_type [''availability'', ''name''] = ''availability_change''"
    using determine_change_type_priority
      [of "[''availability'', ''name'']", THEN conjunct2, THEN conjunct1]
    by simp
  have 3: "determine_change_type [''rating'', ''description''] = ''metadata_change''"
    using determine_change_type_priority
      [of "[''rating'', ''description'']", THEN conjunct2, THEN conjunct2, THEN conjunct1]
    by simp
  have 4: "determine_change_type [''rating'', ''number_of_reviews''] = ''rating_change''"
    using determine_change_type_priority
      [of "[''rating'', ''number_of_reviews'']", THEN conjunct2, THEN conjunct2,
        THEN conjunct2, THEN conjunct1]
    by simp
  have 5: "determine_change_type [''number_of_reviews''] = ''other_change''"
    using determine_change_type_priority
      [of "[''number_of_reviews'']", THEN conjunct2, THEN conjunct2, THEN conjunct2,
        THEN conjunct2, THEN conjunct1]
    by simp
  have 6: "determine_change_type
             [''price_including_tax'', ''price_excluding_tax'', ''availability'']
             = ''price_change''
           \<and> determine_change_type
               [''price_including_tax'', ''price_excluding_tax'', ''availability'']
             \<noteq> ''availability_change''"
    using determine_change_type_priority
      [of "[''price_including_tax'', ''price_excluding_tax'', ''availability'']",
        THEN conjunct2, THEN conjunct2, THEN conjunct2, THEN conjunct2, THEN conjunct2]
    by simp
  from 1 2 3 4 5 6 show ?thesis by blast
qed

text \<open>The list of changed fields of a repriced, sold-out book.\<close>

lemma detect_changes_repriced_sold_out:
  "map_option ci_changed_fields
     (detect_changes sample_exceeds_tolerance stored_test_book test_book_repriced_sold_out)
     = Some [''price_including_tax'', ''price_excluding_tax'', ''availability'']"
  by code_simp

text \<open>
  Claim C3 (a change record on the first call for a changed item, none on the second)
  at the scenario of \<open>test_detect_price_change\<close>: the stored book costs 19.99 and the
  crawled one 15.99. The first call updates the stored document and then raises the
  \<open>ValidationError\<close> of \<open>ChangeLogCreate\<close>, whose \<open>changed_fields\<close> receives a list: no
  change record is returned and none is appended. The second call returns \<open>None\<close>.
\<close>

theorem process_book_changed_item_raises:
  "fst (process_book sample_digest sample_exceeds_tolerance runtime_2 seeded_database
          test_book_repriced)
     = Inl ValidationError
   \<and> change_logs (snd (process_book sample_digest sample_exceeds_tolerance runtime_2
                         seeded_database test_book_repriced))
     = change_logs seeded_database
   \<and> fst (process_book sample_digest sample_exceeds_tolerance runtime_3
            (snd (process_book sample_digest sample_exceeds_tolerance runtime_2
                    seeded_database test_book_repriced))
            test_book_repriced)
     = Inr None"
  by code_simp

text \<open>
  Claim C4: the fingerprint is the digest of name, both prices, availability and rating,
  and of nothing else. So when the stored document (whose fingerprint is that of its own
  fields, and whose identifier is unique in the collection) and the crawled item agree on
  these five fields, whatever their descriptions and review counts are, the fingerprints
  are equal and \<open>process_book\<close> returns \<open>None\<close>, appends no change log entry and
  changes nothing in the collection but a crawl timestamp.
\<close>

theorem process_book_insignificant_change:
  assumes found: "find (\<lambda>d. source_url d = source_url item) (books db) = Some old"
    and ids: "distinct (map doc_id (books db))"
    and r0: "0 \<le> rating old" and r5: "rating old \<le> 5"
    and fp: "data_hash old
               = Some (generate_data_hash digest (model_dump (BookCreate.truncate old)))"
    and same: "name item = name old" "price_including_tax item = price_including_tax old"
      "price_excluding_tax item = price_excluding_tax old"
      "availability item = availability old" "rating item = rating old"
  shows "generate_data_hash digest (model_dump item)
           = digest [(''name'', PyStr (name item)),
                     (''price_including_tax'', PyFloat (price_including_tax item)),
                     (''price_excluding_tax'', PyFloat (price_excluding_tax item)),
                     (''availability'', PyStr (availability item)),
                     (''rating'', PyInt (rating item))]
       \<and> data_hash old = Some (generate_data_hash digest (model_dump item))
       \<and> fst (process_book digest exceeds_tolerance rt db item) = Inr None
       \<and> change_logs (snd (process_book digest exceeds_tolerance rt db item)) = change_logs db
       \<and> map (\<lambda>d. d\<lparr>crawl_timestamp := 0\<rparr>) (books (snd (process_book digest exceeds_tolerance rt db item)))
           = map (\<lambda>d. d\<lparr>crawl_timestamp := 0\<rparr>) (books db)"
proof -
  have sf: "\<And>b. generate_data_hash digest (model_dump b)
           = digest [(''name'', PyStr (name b)),
                     (''price_including_tax'', PyFloat (price_including_tax b)),
                     (''price_excluding_tax'', PyFloat (price_excluding_tax b)),
                     (''availability'', PyStr (availability b)),
                     (''rating'', PyInt (rating b))]"
    using significant_fields_model_dump [of _ "[]"] by (simp add: generate_data_hash_def)
  have eq: "data_hash old = Some (generate_data_hash digest (model_dump item))"
    using fp same by (simp add: sf BookCreate.truncate_def)
  have g: "get_by_url (books db) (source_url item) = Inr (Some old)"
    using found r0 r5 by (rule get_by_url_found)
  from found have mem: "old \<in> set (books db)" by (simp add: find_Some_mem)
  have fid: "find (\<lambda>d. doc_id d = doc_id old) (books db) = Some old"
    using ids mem by (rule find_distinct_key)
  let ?u = "update (utcnow rt) (books db) (doc_id old)
      [(''crawl_timestamp'', PyDateTime (utcnow rt))] (\<lambda>d. d\<lparr>crawl_timestamp := utcnow rt\<rparr>)"
  have "\<exists>r. fst ?u = Inr r"
    using fid bson_error_timestamp
  proof (rule update_found)
    show "\<And>d. doc_id (d\<lparr>crawl_timestamp := utcnow rt\<rparr>) = doc_id d" by simp
    show "0 \<le> rating (old\<lparr>crawl_timestamp := utcnow rt\<rparr>)" using r0 by simp
    show "rating (old\<lparr>crawl_timestamp := utcnow rt\<rparr>) \<le> 5" using r5 by simp
  qed
  then obtain r where r: "fst ?u = Inr r" by blast
  obtain docs where u: "?u = (Inr r, docs)"
    using r by (cases ?u) simp
  have pb: "process_book digest exceeds_tolerance rt db item = (Inr None, db\<lparr>books := docs\<rparr>)"
    by (simp add: process_book_def g eq [symmetric] Let_def u)
  have "docs = snd ?u" by (simp add: u)
  also have "\<dots> = fst (update_one (\<lambda>d. doc_id d = doc_id old)
                       (\<lambda>d. d\<lparr>crawl_timestamp := utcnow rt\<rparr>) (books db))"
    using snd_update [OF bson_error_timestamp,
        where assign = "\<lambda>d. d\<lparr>crawl_timestamp := utcnow rt\<rparr>" and docs = "books db"
          and bid = "doc_id old"]
    by simp
  finally have "map (\<lambda>d. d\<lparr>crawl_timestamp := 0\<rparr>) docs
      = map (\<lambda>d. d\<lparr>crawl_timestamp := 0\<rparr>) (books db)"
    by (simp add: update_one_map)
  with pb eq sf show ?thesis by simp
qed

text \<open>The theorem at a re-crawl with a new description and a new review count.\<close>

theorem process_book_insignificant_change_witness:
  "find (\<lambda>d. source_url d = source_url test_book_reviewed) (books seeded_database)
     = Some stored_test_book
   \<and> description test_book_reviewed \<noteq> description stored_test_book
   \<and> number_of_reviews test_book_reviewed \<noteq> number_of_reviews stored_test_book
   \<and> fst (process_book sample_digest sample_exceeds_tolerance runtime_2 seeded_database test_book_reviewed) = Inr None
   \<and> change_logs (snd (process_book sample_digest sample_exceeds_tolerance runtime_2 seeded_database test_book_reviewed))
       = change_logs seeded_database"
proof -
  have found: "find (\<lambda>d. source_url d = source_url test_book_reviewed) (books seeded_database)
     = Some stored_test_book" by code_simp
  have ids: "distinct (map doc_id (books seeded_database))" by code_simp
  have r0: "0 \<le> rating stored_test_book" and r5: "rating stored_test_book \<le> 5"
    by code_simp+
  have fp: "data_hash stored_test_book
      = Some (generate_data_hash sample_digest (model_dump (BookCreate.truncate stored_test_book)))"
    by code_simp
  have same: "name test_book_reviewed = name stored_test_book"
    "price_including_tax test_book_reviewed = price_including_tax stored_test_book"
    "price_excluding_tax test_book_reviewed = price_excluding_tax stored_test_book"
    "availability test_book_reviewed = availability stored_test_book"
    "rating test_book_reviewed = rating stored_test_book"
    by code_simp+
  have d: "description test_book_reviewed \<noteq> description stored_test_book"
    "number_of_reviews test_book_reviewed \<noteq> number_of_reviews stored_test_book"
    by code_simp+
  show ?thesis
    using found d process_book_insignificant_change
      [where rt = runtime_2 and exceeds_tolerance = sample_exceeds_tolerance,
       OF found ids r0 r5 fp same]
    by simp
qed

text \<open>
  Claim C10: when the stored fingerprint differs from the new one and the field by field
  comparison finds nothing (for each price the test \<open>abs(old - new) > 0.01\<close> of the code
  on the two floats is false, the other tracked fields are equal), \<open>process_book\<close>
  returns \<open>None\<close> and leaves the database as it was: the stored fingerprint and crawl
  timestamp stay, and the next call with the same item takes the same path again, with the
  same outcome.
\<close>

theorem process_book_within_tolerance:
  assumes found: "find (\<lambda>d. source_url d = source_url item) (books db) = Some old"
    and r0: "0 \<le> rating old" and r5: "rating old \<le> 5"
    and stale: "data_hash old \<noteq> Some (generate_data_hash digest (model_dump item))"
    and prices: "\<not> exceeds_tolerance (price_including_tax old) (price_including_tax item)"
      "\<not> exceeds_tolerance (price_excluding_tax old) (price_excluding_tax item)"
    and others: "name old = name item" "availability old = availability item"
      "rating old = rating item" "description old = description item"
      "number_of_reviews old = number_of_reviews item"
  shows "process_book digest exceeds_tolerance rt db item = (Inr None, db)
       \<and> process_book digest exceeds_tolerance rt' (snd (process_book digest exceeds_tolerance rt db item)) item = (Inr None, db)"
proof -
  have g: "get_by_url (books db) (source_url item) = Inr (Some old)"
    using found r0 r5 by (rule get_by_url_found)
  have d: "detect_changes exceeds_tolerance old item = None"
    using prices others by (simp add: detect_changes_None_iff)
  have "\<And>rt. process_book digest exceeds_tolerance rt db item = (Inr None, db)"
    using stale by (simp add: process_book_def g d Let_def)
  then show ?thesis by simp
qed

text \<open>The theorem at a price that moved by half a penny.\<close>

theorem process_book_within_tolerance_witness:
  "data_hash stored_test_book
      \<noteq> Some (generate_data_hash sample_digest (model_dump test_book_half_penny))
   \<and> price_including_tax stored_test_book \<noteq> price_including_tax test_book_half_penny
   \<and> \<not> sample_exceeds_tolerance (price_including_tax stored_test_book)
         (price_including_tax test_book_half_penny)
   \<and> \<not> sample_exceeds_tolerance (price_excluding_tax stored_test_book)
         (price_excluding_tax test_book_half_penny)
   \<and> process_book sample_digest sample_exceeds_tolerance runtime_2 seeded_database test_book_half_penny
       = (Inr None, seeded_database)
   \<and> process_book sample_digest sample_exceeds_tolerance runtime_3
        (snd (process_book sample_digest sample_exceeds_tolerance runtime_2 seeded_database test_book_half_penny))
        test_book_half_penny
       = (Inr None, seeded_database)"
proof -
  have found: "find (\<lambda>d. source_url d = source_url test_book_half_penny) (books seeded_database)
     = Some stored_test_book" by code_simp
  have r0: "0 \<le> rating stored_test_book" and r5: "rating stored_test_book \<le> 5"
    by code_simp+
  have stale: "data_hash stored_test_book
      \<noteq> Some (generate_data_hash sample_digest (model_dump test_book_half_penny))"
    by code_simp
  have prices: "\<not> sample_exceeds_tolerance (price_including_tax stored_test_book)
                    (price_including_tax test_book_half_penny)"
    "\<not> sample_exceeds_tolerance (price_excluding_tax stored_test_book)
         (price_excluding_tax test_book_half_penny)"
    by code_simp+
  have others: "name stored_test_book = name test_book_half_penny"
    "availability stored_test_book = availability test_book_half_penny"
    "rating stored_test_book = rating test_book_half_penny"
    "description stored_test_book = description test_book_half_penny"
    "number_of_reviews stored_test_book = number_of_reviews test_book_half_penny"
    by code_simp+
  have ne: "price_including_tax stored_test_book \<noteq> price_including_tax test_book_half_penny"
    by code_simp
  show ?thesis
    using stale ne prices
      process_book_within_tolerance
        [where rt = runtime_2 and rt' = runtime_3, OF found r0 r5 stale prices others]
    by blast
qed

text \<open>
  What the price scenario shows holds in general: whenever a stored book differs
  from the crawled item in its fingerprint and in a tracked field, \<open>process_book\<close>
  updates the stored document and raises, and appends no change log entry.
\<close>

lemma process_book_changed_raises:
  assumes found: "find (\<lambda>d. source_url d = source_url item) (books db) = Some old"
    and ids: "distinct (map doc_id (books db))"
    and r0: "0 \<le> rating old" and r5: "rating old \<le> 5"
    and i0: "0 \<le> rating item" and i5: "rating item \<le> 5"
    and reviews: "fits_int64 (number_of_reviews item)"
    and stale: "data_hash old \<noteq> Some (generate_data_hash digest (model_dump item))"
    and changed: "detect_changes exceeds_tolerance old item \<noteq> None"
  shows "fst (process_book digest exceeds_tolerance rt db item) = Inl ValidationError
       \<and> change_logs (snd (process_book digest exceeds_tolerance rt db item)) = change_logs db"
proof -
  let ?h = "generate_data_hash digest (model_dump item)"
  let ?upd = "\<lambda>d. book_document item (doc_id d) (crawl_timestamp d) (status d) (Some ?h)"
  let ?u = "update (utcnow rt) (books db) (doc_id old)
              (model_dump item @ [(''data_hash'', PyStr ?h)]) ?upd"
  have g: "get_by_url (books db) (source_url item) = Inr (Some old)"
    using found r0 r5 by (rule get_by_url_found)
  from changed obtain info where d: "detect_changes exceeds_tolerance old item = Some info"
    by blast
  from found have mem: "old \<in> set (books db)" by (simp add: find_Some_mem)
  have fid: "find (\<lambda>d. doc_id d = doc_id old) (books db) = Some old"
    using ids mem by (rule find_distinct_key)
  have enc: "bson_error (dict_set (model_dump item @ [(''data_hash'', PyStr ?h)])
                           ''crawl_timestamp'' (PyDateTime (utcnow rt))) = None"
    using reviews i0 i5 by (simp add: bson_error_update_dict fits_int64_rating)
  have "\<exists>r. fst ?u = Inr r"
    using fid enc by (rule update_found) (simp_all add: book_document_def i0 i5)
  then obtain r docs where u: "?u = (Inr r, docs)"
    by (cases ?u) auto
  have "process_book digest exceeds_tolerance rt db item
          = (Inl ValidationError, db\<lparr>books := docs\<rparr>)"
    using stale by (simp add: process_book_def g d Let_def u ChangeLogCreate_init_def)
  then show ?thesis by simp
qed

text \<open>
  For a new item, two calls in a row behave as an idempotent pair: the first returns a
  change record, and the second, on the database the first one left, returns \<open>None\<close>,
  provided the identifier drawn for the book was not in use and the database takes the
  two documents of the first call.
\<close>

lemma find_append_absent:
  "find P xs = None \<Longrightarrow> find P (xs @ ys) = find P ys"
  by (induction xs) (auto split: if_splits)

lemma process_book_new_then_unchanged:
  assumes absent: "\<forall>d \<in> set (books db). source_url d \<noteq> source_url item"
    and i0: "0 \<le> rating item" and i5: "rating item \<le> 5"
    and reviews: "fits_int64 (number_of_reviews item)"
    and fresh: "\<forall>d \<in> set (books db). doc_id d \<noteq> uuid4_book rt"
    and accepts_book:
      "\<not> refuses_book rt
          (book_document item (uuid4_book rt) (utcnow rt) ''active''
             (Some (generate_data_hash digest (model_dump item))))"
    and accepts_log:
      "\<not> refuses_log rt
          \<lparr>book_id = uuid4_book rt, changed_fields = [], old_values = [],
           new_values = model_dump item, change_type = ''new_book'',
           log_id = uuid4_log rt, timestamp = utcnow rt\<rparr>"
  shows "\<exists>cl. fst (process_book digest exceeds_tolerance rt db item) = Inr (Some cl)"
    and "fst (process_book digest exceeds_tolerance rt'
               (snd (process_book digest exceeds_tolerance rt db item)) item) = Inr None"
proof -
  let ?h = "generate_data_hash digest (model_dump item)"
  let ?doc = "book_document item (uuid4_book rt) (utcnow rt) ''active'' (Some ?h)"
  have g: "get_by_url (books db) (source_url item) = Inr None"
    using absent by (rule get_by_url_absent)
  have u: "upsert_by_url digest rt (books db) item = (Inr ?doc, books db @ [?doc])"
    using absent i0 i5 reviews fresh accepts_book by (rule upsert_by_url_new)
  have did: "doc_id ?doc = uuid4_book rt" by (simp add: book_document_def)
  have cl: "change_log_create rt (change_logs db)
              \<lparr>book_id = uuid4_book rt, changed_fields = [], old_values = [],
               new_values = model_dump item, change_type = ''new_book''\<rparr>
            = Inr (change_logs db
                @ [\<lparr>book_id = uuid4_book rt, changed_fields = [], old_values = [],
                     new_values = model_dump item, change_type = ''new_book'',
                     log_id = uuid4_log rt, timestamp = utcnow rt\<rparr>])"
    using i0 i5 reviews accepts_log by (rule change_log_create_new_book)
  obtain cl logs where p1: "process_book digest exceeds_tolerance rt db item
      = (Inr (Some cl), db\<lparr>books := books db @ [?doc], change_logs := logs\<rparr>)"
    by (simp add: process_book_def g u ChangeLogCreate_init_def did cl)
  then show "\<exists>cl. fst (process_book digest exceeds_tolerance rt db item) = Inr (Some cl)"
    by simp
  let ?db1 = "db\<lparr>books := books db @ [?doc], change_logs := logs\<rparr>"
  let ?docs1 = "books db @ [?doc]"
  let ?u1 = "update (utcnow rt') ?docs1 (doc_id ?doc)
               [(''crawl_timestamp'', PyDateTime (utcnow rt'))]
               (\<lambda>d. d\<lparr>crawl_timestamp := utcnow rt'\<rparr>)"
  have nf: "find (\<lambda>d. source_url d = source_url item) (books db) = None"
    using absent by (induction "books db") (auto simp: find_None_iff)
  have f1: "find (\<lambda>d. source_url d = source_url item) ?docs1 = Some ?doc"
    using nf by (simp add: find_append_absent book_document_def)
  have rd: "0 \<le> rating ?doc" "rating ?doc \<le> 5" using i0 i5 by (simp_all add: book_document_def)
  have g1: "get_by_url ?docs1 (source_url item) = Inr (Some ?doc)"
    using f1 rd by (rule get_by_url_found)
  have nfi: "find (\<lambda>d. doc_id d = uuid4_book rt) (books db) = None"
    using fresh by (auto simp: find_None_iff)
  have fid: "find (\<lambda>d. doc_id d = doc_id ?doc) ?docs1 = Some ?doc"
    using nfi by (simp add: find_append_absent book_document_def)
  have "\<exists>r. fst ?u1 = Inr r"
    using fid bson_error_timestamp by (rule update_found) (simp_all add: rd)
  then obtain r docs where u1: "?u1 = (Inr r, docs)"
    by (cases ?u1) auto
  have dh: "data_hash ?doc = Some ?h" by (simp add: book_document_def)
  have "process_book digest exceeds_tolerance rt' ?db1 item = (Inr None, ?db1\<lparr>books := docs\<rparr>)"
    by (simp add: process_book_def g1 dh Let_def u1)
  with p1 show "fst (process_book digest exceeds_tolerance rt'
                      (snd (process_book digest exceeds_tolerance rt db item)) item)
      = Inr None" by simp
qed

section \<open>Properties of the crawler\<close>

subsection \<open>Fetching with retries\<close>

lemma attempts_frame:
  "visited_urls (snd (attempts srv url n c)) = visited_urls c
   \<and> fetches (snd (attempts srv url n c)) = fetches c"
proof (induction n arbitrary: c)
  case 0
  show ?case by simp
next
  case (Suc n)
  obtain out s' where o: "srv (net c) url = (out, s')" by (cases "srv (net c) url")
  show ?case
    using Suc [of "c\<lparr>net := s', requests := requests c @ [url]\<rparr>"] o
    by (cases out) (simp_all add: Let_def)
qed

lemma attempts_all_fail:
  assumes "\<forall>s. case fst (srv s url) of
                 Response st body \<Rightarrow> st \<noteq> 200 \<and> st \<noteq> 404
               | TimeoutError \<Rightarrow> True
               | OtherException \<Rightarrow> True"
  shows "fst (attempts srv url n c) = None
         \<and> requests (snd (attempts srv url n c)) = requests c @ replicate n url"
proof (induction n arbitrary: c)
  case 0
  show ?case by simp
next
  case (Suc n)
  obtain out s' where o: "srv (net c) url = (out, s')" by (cases "srv (net c) url")
  from assms have "case fst (srv (net c) url) of
                 Response st body \<Rightarrow> st \<noteq> 200 \<and> st \<noteq> 404
               | TimeoutError \<Rightarrow> True
               | OtherException \<Rightarrow> True" by blast
  with o have ok: "case out of
                 Response st body \<Rightarrow> st \<noteq> 200 \<and> st \<noteq> 404
               | TimeoutError \<Rightarrow> True
               | OtherException \<Rightarrow> True" by simp
  show ?case
    using Suc [of "c\<lparr>net := s', requests := requests c @ [url]\<rparr>"] o ok
    by (cases out) (simp_all add: Let_def replicate_append_same)
qed

text \<open>
  Claim C6: when every answer of the site for a URL is a failure that the code retries
  (a status other than 200 and 404, a timeout or another exception; the statuses of the
  claim, which are outside 2xx and not 404, and its timeouts are among them),
  \<open>_fetch_with_retry\<close> issues one request per attempt, \<open>max_attempts\<close> requests in
  all, each for that URL, and returns \<open>None\<close>. \<open>max_attempts\<close> is the argument, or
  \<open>settings.retry_max_attempts\<close> when the argument is absent or 0.
\<close>

theorem fetch_with_retry_retry_bound:
  assumes "\<forall>s. case fst (server e s url) of
                 Response st body \<Rightarrow> st \<noteq> 200 \<and> st \<noteq> 404
               | TimeoutError \<Rightarrow> True
               | OtherException \<Rightarrow> True"
  shows "fst (fetch_with_retry e url max_attempts c) = None
         \<and> requests (snd (fetch_with_retry e url max_attempts c))
             = requests c @ replicate (nat (effective_max_attempts e max_attempts)) url"
  using attempts_all_fail [of "server e" url, OF assms] by (simp add: fetch_with_retry_def)

text \<open>The theorem at a site that answers 500 to everything, with three attempts configured.\<close>

theorem fetch_with_retry_retry_bound_witness:
  "effective_max_attempts failing_site None = 3
   \<and> fst (fetch_with_retry failing_site ''http://site/b1'' None (new_crawler ())) = None
   \<and> requests (snd (fetch_with_retry failing_site ''http://site/b1'' None (new_crawler ())))
       = [''http://site/b1'', ''http://site/b1'', ''http://site/b1'']"
proof -
  have h: "\<forall>s. case fst (server failing_site s ''http://site/b1'') of
                 Response st body \<Rightarrow> st \<noteq> 200 \<and> st \<noteq> 404
               | TimeoutError \<Rightarrow> True
               | OtherException \<Rightarrow> True"
    by (simp add: failing_site_def)
  have m: "effective_max_attempts failing_site None = 3"
    by (simp add: effective_max_attempts_def failing_site_def sample_env_def)
  have r: "replicate (nat 3) ''http://site/b1''
      = [''http://site/b1'', ''http://site/b1'', ''http://site/b1'']"
    by (simp add: numeral_3_eq_3)
  show ?thesis
    using fetch_with_retry_retry_bound [OF h, of None "new_crawler ()"] m r
    by (simp add: new_crawler_def)
qed

subsection \<open>The visited set\<close>

lemma fetch_with_retry_frame:
  "visited_urls (snd (fetch_with_retry e url m c)) = visited_urls c
   \<and> fetches (snd (fetch_with_retry e url m c)) = fetches c @ [url]"
  using attempts_frame [of "server e" url _ "c\<lparr>fetches := fetches c @ [url]\<rparr>"]
  by (simp add: fetch_with_retry_def)

lemma crawl_book_fetches:
  "fetches (snd (crawl_book e url c))
     = (if url \<in> visited_urls c then fetches c else fetches c @ [url])
   \<and> visited_urls (snd (crawl_book e url c)) = insert url (visited_urls c)"
proof (cases "url \<in> visited_urls c")
  case True
  then show ?thesis by (auto simp: crawl_book_def)
next
  case False
  let ?c1 = "c\<lparr>visited_urls := insert url (visited_urls c)\<rparr>"
  obtain html c' where f: "fetch_with_retry e url None ?c1 = (html, c')"
    by (cases "fetch_with_retry e url None ?c1")
  with fetch_with_retry_frame [of e url None ?c1]
  have "visited_urls c' = insert url (visited_urls c)" "fetches c' = fetches c @ [url]"
    by simp_all
  with False f show ?thesis by (simp add: crawl_book_def)
qed

lemma once_step:
  assumes "\<exists>fs. fetches c = p @ fs \<and> distinct fs \<and> set fs \<subseteq> visited_urls c"
    and "url \<notin> visited_urls c"
    and "fetches c' = fetches c @ [url]" and "visited_urls c' = insert url (visited_urls c)"
  shows "\<exists>fs. fetches c' = p @ fs \<and> distinct fs \<and> set fs \<subseteq> visited_urls c'"
proof -
  from assms(1) obtain fs where fs: "fetches c = p @ fs" "distinct fs"
    "set fs \<subseteq> visited_urls c" by blast
  with assms(2,3,4) have "fetches c' = p @ (fs @ [url])" "distinct (fs @ [url])"
    "set (fs @ [url]) \<subseteq> visited_urls c'" by auto
  then show ?thesis by blast
qed

lemma crawl_book_once:
  assumes "\<exists>fs. fetches c = p @ fs \<and> distinct fs \<and> set fs \<subseteq> visited_urls c"
  shows "\<exists>fs. fetches (snd (crawl_book e url c)) = p @ fs \<and> distinct fs
           \<and> set fs \<subseteq> visited_urls (snd (crawl_book e url c))"
proof (cases "url \<in> visited_urls c")
  case True
  then have "snd (crawl_book e url c) = c" by (simp add: crawl_book_def)
  with assms show ?thesis by simp
next
  case False
  with crawl_book_fetches [of e url c]
  have "fetches (snd (crawl_book e url c)) = fetches c @ [url]"
    "visited_urls (snd (crawl_book e url c)) = insert url (visited_urls c)" by simp_all
  with assms False show ?thesis by (rule once_step)
qed

lemma snd_crawl_books_Cons:
  "snd (crawl_books e (url # urls) c) = snd (crawl_books e urls (snd (crawl_book e url c)))"
  by (simp split: prod.splits)

lemma crawl_books_once:
  assumes "\<exists>fs. fetches c = p @ fs \<and> distinct fs \<and> set fs \<subseteq> visited_urls c"
  shows "\<exists>fs. fetches (snd (crawl_books e urls c)) = p @ fs \<and> distinct fs
           \<and> set fs \<subseteq> visited_urls (snd (crawl_books e urls c))"
  using assms
proof (induction urls arbitrary: c)
  case Nil
  then show ?case by simp
next
  case (Cons url urls)
  have "\<exists>fs. fetches (snd (crawl_book e url c)) = p @ fs \<and> distinct fs
           \<and> set fs \<subseteq> visited_urls (snd (crawl_book e url c))"
    using Cons.prems by (rule crawl_book_once)
  then have "\<exists>fs. fetches (snd (crawl_books e urls (snd (crawl_book e url c)))) = p @ fs
           \<and> distinct fs
           \<and> set fs \<subseteq> visited_urls (snd (crawl_books e urls (snd (crawl_book e url c))))"
    by (rule Cons.IH)
  then show ?case by (simp only: snd_crawl_books_Cons)
qed

lemma crawl_books_visited:
  "visited_urls (snd (crawl_books e urls c)) = set urls \<union> visited_urls c"
proof (induction urls arbitrary: c)
  case Nil
  show ?case by simp
next
  case (Cons url urls)
  obtain b c' where cb: "crawl_book e url c = (b, c')" by (cases "crawl_book e url c")
  with crawl_book_fetches [of e url c] have "visited_urls c' = insert url (visited_urls c)"
    by simp
  with Cons [of c'] cb show ?case by (simp only: snd_crawl_books_Cons snd_conv) simp
qed

lemma crawl_category_loop_once:
  assumes run: "crawl_category_loop e bs cur c = Some y"
    and start: "\<exists>fs. fetches c = p @ fs \<and> distinct fs \<and> set fs \<subseteq> visited_urls c"
  shows "\<exists>fs. fetches (snd y) = p @ fs \<and> distinct fs \<and> set fs \<subseteq> visited_urls (snd y)"
proof -
  have "(\<exists>fs. fetches c = p @ fs \<and> distinct fs \<and> set fs \<subseteq> visited_urls c)
         \<longrightarrow> (\<exists>fs. fetches (snd y) = p @ fs \<and> distinct fs \<and> set fs \<subseteq> visited_urls (snd y))"
  proof (rule crawl_category_loop.raw_induct
      [where P = "\<lambda>e bs cur c y.
         (\<exists>fs. fetches c = p @ fs \<and> distinct fs \<and> set fs \<subseteq> visited_urls c)
         \<longrightarrow> (\<exists>fs. fetches (snd y) = p @ fs \<and> distinct fs \<and> set fs \<subseteq> visited_urls (snd y))",
       OF _ run])
    fix loop :: "'a env \<Rightarrow> BookCreate list \<Rightarrow> string option \<Rightarrow> 'a crawler
        \<Rightarrow> ((error + BookCreate list) \<times> 'a crawler) option"
    fix e bs cur c y
    assume IH: "\<And>e bs cur c y. loop e bs cur c = Some y \<Longrightarrow>
         (\<exists>fs. fetches c = p @ fs \<and> distinct fs \<and> set fs \<subseteq> visited_urls c)
         \<longrightarrow> (\<exists>fs. fetches (snd y) = p @ fs \<and> distinct fs \<and> set fs \<subseteq> visited_urls (snd y))"
    assume body: "(case cur of
        None \<Rightarrow> Some (Inr bs, c)
      | Some url \<Rightarrow>
          (if url = [] then Some (Inr bs, c)
           else if url \<in> visited_urls c then Some (Inr bs, c)
           else (case fetch_with_retry e url None
                        (c\<lparr>visited_urls := insert url (visited_urls c)\<rparr>) of
                   (html, c') \<Rightarrow>
                     (if no_html html then Some (Inr bs, c')
                      else (case extract_book_urls_from_category e (the html) url of
                              Inl err \<Rightarrow> Some (Inl err, c')
                            | Inr book_urls \<Rightarrow>
                                (case crawl_books e book_urls c' of
                                   (page_books, c'') \<Rightarrow>
                                     (case get_next_page_url e (the html) url of
                                        Inl err \<Rightarrow> Some (Inl err, c'')
                                      | Inr next_url \<Rightarrow>
                                          loop e (bs @ page_books) next_url c''))))))) = Some y"
    show "(\<exists>fs. fetches c = p @ fs \<and> distinct fs \<and> set fs \<subseteq> visited_urls c)
         \<longrightarrow> (\<exists>fs. fetches (snd y) = p @ fs \<and> distinct fs \<and> set fs \<subseteq> visited_urls (snd y))"
    proof (intro impI)
      assume inv: "\<exists>fs. fetches c = p @ fs \<and> distinct fs \<and> set fs \<subseteq> visited_urls c"
      show "\<exists>fs. fetches (snd y) = p @ fs \<and> distinct fs \<and> set fs \<subseteq> visited_urls (snd y)"
      proof (cases cur)
        case None
        with body have "y = (Inr bs, c)" by simp
        with inv show ?thesis by simp
      next
        case (Some url)
        show ?thesis
        proof (cases "url = [] \<or> url \<in> visited_urls c")
          case True
          with body Some have "y = (Inr bs, c)" by (auto split: if_splits)
          with inv show ?thesis by simp
        next
          case False
          let ?c1 = "c\<lparr>visited_urls := insert url (visited_urls c)\<rparr>"
          obtain html c' where f: "fetch_with_retry e url None ?c1 = (html, c')"
            by (cases "fetch_with_retry e url None ?c1")
          with fetch_with_retry_frame [of e url None ?c1]
          have fr: "fetches c' = fetches c @ [url]"
            "visited_urls c' = insert url (visited_urls c)" by simp_all
          from False have nv: "url \<notin> visited_urls c" by simp
          have inv': "\<exists>fs. fetches c' = p @ fs \<and> distinct fs \<and> set fs \<subseteq> visited_urls c'"
            using inv nv fr by (rule once_step)
          show ?thesis
          proof (cases "no_html html")
            case True
            with body Some False f have "y = (Inr bs, c')" by simp
            with inv' show ?thesis by simp
          next
            case nh: False
            show ?thesis
            proof (cases "extract_book_urls_from_category e (the html) url")
              case (Inl err)
              with body Some False f nh have "y = (Inl err, c')" by simp
              with inv' show ?thesis by simp
            next
              case (Inr book_urls)
              obtain pbs c'' where cb: "crawl_books e book_urls c' = (pbs, c'')"
                by (cases "crawl_books e book_urls c'")
              from crawl_books_once [OF inv', of e book_urls] cb
              have inv'': "\<exists>fs. fetches c'' = p @ fs \<and> distinct fs
                             \<and> set fs \<subseteq> visited_urls c''"
                by simp
              show ?thesis
              proof (cases "get_next_page_url e (the html) url")
                case (Inl err)
                with body Some False f nh Inr cb have "y = (Inl err, c'')" by simp
                with inv'' show ?thesis by simp
              next
                case nxt: (Inr next_url)
                from body Some False f nh Inr cb nxt
                have "loop e (bs @ pbs) next_url c'' = Some y"
                  by simp
                from IH [OF this] inv'' show ?thesis by blast
              qed
            qed
          qed
        qed
      qed
    qed
  qed
  with start show ?thesis by blast
qed

lemma crawl_categories_once:
  assumes "crawl_categories e cats all_books c = Some y"
    and "\<exists>fs. fetches c = p @ fs \<and> distinct fs \<and> set fs \<subseteq> visited_urls c"
  shows "\<exists>fs. fetches (snd y) = p @ fs \<and> distinct fs \<and> set fs \<subseteq> visited_urls (snd y)"
  using assms
proof (induction cats arbitrary: all_books c)
  case Nil
  then show ?case by auto
next
  case (Cons u cats)
  from Cons.prems(1) obtain r c' where cc: "crawl_category e u c = Some (r, c')"
    and rest: "crawl_categories e cats (case r of Inl err \<Rightarrow> all_books | Inr bs \<Rightarrow> all_books @ bs) c'
                 = Some y"
    by (auto split: option.splits sum.splits)
  from cc have "crawl_category_loop e [] (Some u) c = Some (r, c')"
    by (simp add: crawl_category_def)
  from crawl_category_loop_once [OF this Cons.prems(2)]
  have "\<exists>fs. fetches c' = p @ fs \<and> distinct fs \<and> set fs \<subseteq> visited_urls c'" by simp
  with rest show ?case by (rule Cons.IH)
qed

text \<open>
  Claim C7, as the code has it: in a run of \<open>crawl_all\<close> that ends (with its list or
  with an exception), started on a new crawler, the first fetch is the one of the root page, which \<open>get_all_categories\<close>
  issues without looking at \<open>visited_urls\<close>; all later fetches, those of
  \<open>crawl_category\<close> and \<open>crawl_book\<close>, are for pairwise different URLs, each marked
  visited. So a URL is fetched at most once by the traversal, and at most once more as the
  root.
\<close>

theorem crawl_all_fetches_once:
  assumes "crawl_all e (new_crawler s) = Some (r, c)"
  shows "\<exists>fs. fetches c = base_url e # fs \<and> distinct fs \<and> set fs \<subseteq> visited_urls c"
proof -
  obtain cats c1 where g: "get_all_categories e (new_crawler s) = (cats, c1)"
    by (cases "get_all_categories e (new_crawler s)")
  obtain html c0 where f: "fetch_with_retry e (base_url e) None (new_crawler s) = (html, c0)"
    by (cases "fetch_with_retry e (base_url e) None (new_crawler s)")
  with g have "c1 = c0" by (simp add: get_all_categories_def split: if_splits)
  with f fetch_with_retry_frame [of e "base_url e" None "new_crawler s"]
  have f1: "fetches c1 = [base_url e]" by (simp add: new_crawler_def)
  show ?thesis
  proof (cases cats)
    case (Inl err)
    with assms g have "c = c1" by (simp add: crawl_all_def)
    with f1 show ?thesis by simp
  next
    case (Inr categories)
    with assms g obtain all_books where
      cc: "crawl_categories e categories [] c1 = Some (all_books, c)"
      by (auto simp: crawl_all_def split: option.splits)
    from f1 have "\<exists>fs. fetches c1 = [base_url e] @ fs \<and> distinct fs
                   \<and> set fs \<subseteq> visited_urls c1"
      by simp
    with cc have "\<exists>fs. fetches (snd (all_books, c)) = [base_url e] @ fs \<and> distinct fs
        \<and> set fs \<subseteq> visited_urls (snd (all_books, c))"
      by (rule crawl_categories_once)
    then show ?thesis by simp
  qed
qed

text \<open>
  The theorem at a site whose first listing page links the same book twice and whose second
  page links it again.
\<close>

theorem crawl_all_fetches_once_witness:
  "crawl_all cyclic_site (new_crawler ()) \<noteq> None
   \<and> extract_book_urls_from_category cyclic_site ''PAGE-1'' ''http://site/c/page-1''
       = Inr [''http://site/b1'', ''http://site/b1'']
   \<and> (\<exists>fs. fetches (snd (the (crawl_all cyclic_site (new_crawler ()))))
               = base_url cyclic_site # fs
             \<and> distinct fs
             \<and> set fs \<subseteq> visited_urls (snd (the (crawl_all cyclic_site (new_crawler ())))))"
proof -
  have r: "crawl_all cyclic_site (new_crawler ()) \<noteq> None" by code_simp
  then obtain r c where c: "crawl_all cyclic_site (new_crawler ()) = Some (r, c)" by auto
  have l: "extract_book_urls_from_category cyclic_site ''PAGE-1'' ''http://site/c/page-1''
       = Inr [''http://site/b1'', ''http://site/b1'']" by code_simp
  from r l crawl_all_fetches_once [OF c] c show ?thesis by simp
qed

text \<open>
  Claim C7 as stated (every URL is fetched at most once in a run) fails when the root page
  lists the root URL among its categories: the root is fetched by \<open>get_all_categories\<close>
  and again by \<open>crawl_category\<close>.
\<close>

theorem crawl_all_root_fetched_twice_counterexample:
  "map_option (fetches \<circ> snd) (crawl_all self_linking_site (new_crawler ()))
     = Some [''http://site'', ''http://site'']"
  by code_simp

subsection \<open>Pagination\<close>

lemma attempts_served:
  "fst (attempts srv url n c) = Some body \<Longrightarrow> \<exists>s. fst (srv s url) = Response 200 body"
proof (induction n arbitrary: c)
  case 0
  then show ?case by simp
next
  case (Suc n)
  obtain out s' where o: "srv (net c) url = (out, s')" by (cases "srv (net c) url")
  show ?case
  proof (cases out)
    case (Response st b)
    show ?thesis
    proof (cases "st = 200")
      case True
      with Suc.prems o Response have "b = body" by (simp add: Let_def)
      with o Response True have "fst (srv (net c) url) = Response 200 body" by simp
      then show ?thesis by blast
    next
      case False
      with Suc.prems o Response
      have "fst (attempts srv url n (c\<lparr>net := s', requests := requests c @ [url]\<rparr>)) = Some body"
        by (simp add: Let_def split: if_splits)
      then show ?thesis by (rule Suc.IH)
    qed
  next
    case TimeoutError
    with Suc.prems o
    have "fst (attempts srv url n (c\<lparr>net := s', requests := requests c @ [url]\<rparr>)) = Some body"
      by (simp add: Let_def)
    then show ?thesis by (rule Suc.IH)
  next
    case OtherException
    with Suc.prems o
    have "fst (attempts srv url n (c\<lparr>net := s', requests := requests c @ [url]\<rparr>)) = Some body"
      by (simp add: Let_def)
    then show ?thesis by (rule Suc.IH)
  qed
qed

lemma fetch_with_retry_served:
  "fst (fetch_with_retry e url m c) = Some body \<Longrightarrow> \<exists>s. fst (server e s url) = Response 200 body"
  unfolding fetch_with_retry_def by (rule attempts_served)

lemma crawl_category_loop_terminates:
  assumes fin: "finite U"
    and nxt: "\<forall>s url body n. fst (server e s url) = Response 200 body
                \<and> get_next_page_url e body url = Inr (Some n) \<longrightarrow> n \<in> U"
  shows "cur = None \<or> (\<exists>u \<in> U. cur = Some u) \<Longrightarrow>
         \<exists>r c'. crawl_category_loop e bs cur c = Some (r, c')
           \<and> ((\<forall>h u. \<not> isl (extract_book_urls_from_category e h u)
                      \<and> \<not> isl (get_next_page_url e h u)) \<longrightarrow> \<not> isl r)"
proof (induction "card (U - visited_urls c)" arbitrary: bs cur c rule: less_induct)
  case less
  show ?case
  proof (cases cur)
    case None
    then show ?thesis by (subst crawl_category_loop.simps) simp
  next
    case (Some url)
    with less.prems have uU: "url \<in> U" by auto
    show ?thesis
    proof (cases "url = [] \<or> url \<in> visited_urls c")
      case True
      with Some show ?thesis by (subst crawl_category_loop.simps) auto
    next
      case False
      let ?c1 = "c\<lparr>visited_urls := insert url (visited_urls c)\<rparr>"
      obtain html c' where f: "fetch_with_retry e url None ?c1 = (html, c')"
        by (cases "fetch_with_retry e url None ?c1")
      with fetch_with_retry_frame [of e url None ?c1]
      have v': "visited_urls c' = insert url (visited_urls c)" by simp
      show ?thesis
      proof (cases "no_html html")
        case True
        with Some False f show ?thesis by (subst crawl_category_loop.simps) simp
      next
        case nh: False
        then obtain body where b: "html = Some body" by (cases html) (simp_all add: no_html_def)
        show ?thesis
        proof (cases "extract_book_urls_from_category e (the html) url")
          case (Inl err)
          then have "isl (extract_book_urls_from_category e (the html) url)" by simp
          then have "\<not> (\<forall>h u. \<not> isl (extract_book_urls_from_category e h u)
                      \<and> \<not> isl (get_next_page_url e h u))" by blast
          moreover from Some False f nh Inl
          have "crawl_category_loop e bs cur c = Some (Inl err, c')"
            by (subst crawl_category_loop.simps) simp
          ultimately show ?thesis by blast
        next
          case (Inr book_urls)
          obtain pbs c'' where cb: "crawl_books e book_urls c' = (pbs, c'')"
            by (cases "crawl_books e book_urls c'")
          with crawl_books_visited [of e book_urls c'] v'
          have v'': "url \<in> visited_urls c''" "visited_urls c \<subseteq> visited_urls c''" by auto
          from False uU v'' have "U - visited_urls c'' \<subset> U - visited_urls c" by auto
          with fin have lt: "card (U - visited_urls c'') < card (U - visited_urls c)"
            by (simp add: psubset_card_mono)
          show ?thesis
          proof (cases "get_next_page_url e (the html) url")
            case (Inl err)
            then have "isl (get_next_page_url e (the html) url)" by simp
            then have "\<not> (\<forall>h u. \<not> isl (extract_book_urls_from_category e h u)
                      \<and> \<not> isl (get_next_page_url e h u))" by blast
            moreover from Some False f nh Inr cb Inl
            have "crawl_category_loop e bs cur c = Some (Inl err, c'')"
              by (subst crawl_category_loop.simps) simp
            ultimately show ?thesis by blast
          next
            case nx: (Inr next_url)
            from f b have "fst (fetch_with_retry e url None ?c1) = Some body" by simp
            then obtain s where "fst (server e s url) = Response 200 body"
              using fetch_with_retry_served by blast
            with nxt b nx have "next_url = None \<or> (\<exists>u \<in> U. next_url = Some u)"
              by (cases next_url) auto
            with less.hyps [OF lt]
            have "\<exists>r c'. crawl_category_loop e (bs @ pbs) next_url c'' = Some (r, c')
                   \<and> ((\<forall>h u. \<not> isl (extract_book_urls_from_category e h u)
                      \<and> \<not> isl (get_next_page_url e h u)) \<longrightarrow> \<not> isl r)" by blast
            moreover from Some False f nh Inr cb nx
            have "crawl_category_loop e bs cur c
                    = crawl_category_loop e (bs @ pbs) next_url c''"
              by (subst crawl_category_loop.simps) simp
            ultimately show ?thesis by simp
          qed
        qed
      qed
    qed
  qed
qed

text \<open>
  Claim C8, as the code has it: when the next-page links of the pages that the site serves
  range over a finite set of URLs, \<open>crawl_category\<close> ends, whatever the links are
  (cyclic ones included); a category URL that is already visited ends the walk at once;
  and when no selection of links raises, the walk ends with its list of books.
\<close>

theorem crawl_category_terminates:
  assumes "finite U"
    and "\<forall>s url body n. fst (server e s url) = Response 200 body
                \<and> get_next_page_url e body url = Inr (Some n) \<longrightarrow> n \<in> U"
  shows "(\<exists>y. crawl_category e category_url c = Some y)
         \<and> (category_url \<in> visited_urls c \<longrightarrow> crawl_category e category_url c = Some (Inr [], c))
         \<and> ((\<forall>h u. \<not> isl (extract_book_urls_from_category e h u)
                    \<and> \<not> isl (get_next_page_url e h u))
              \<longrightarrow> (\<exists>bs c'. crawl_category e category_url c = Some (Inr bs, c')))"
proof -
  have "finite (insert category_url U)" using assms(1) by simp
  moreover have "\<forall>s url body n. fst (server e s url) = Response 200 body
                \<and> get_next_page_url e body url = Inr (Some n) \<longrightarrow> n \<in> insert category_url U"
    using assms(2) by blast
  moreover have "Some category_url = None
      \<or> (\<exists>u \<in> insert category_url U. Some category_url = Some u)" by simp
  ultimately have "\<exists>r c'. crawl_category_loop e [] (Some category_url) c = Some (r, c')
           \<and> ((\<forall>h u. \<not> isl (extract_book_urls_from_category e h u)
                      \<and> \<not> isl (get_next_page_url e h u)) \<longrightarrow> \<not> isl r)"
    by (rule crawl_category_loop_terminates)
  then obtain r c' where run: "crawl_category e category_url c = Some (r, c')"
    and ok: "(\<forall>h u. \<not> isl (extract_book_urls_from_category e h u)
                      \<and> \<not> isl (get_next_page_url e h u)) \<longrightarrow> \<not> isl r"
    by (auto simp: crawl_category_def)
  have 1: "\<exists>y. crawl_category e category_url c = Some y" using run by simp
  have 2: "category_url \<in> visited_urls c \<longrightarrow> crawl_category e category_url c = Some (Inr [], c)"
    unfolding crawl_category_def by (subst crawl_category_loop.simps) simp
  have 3: "(\<forall>h u. \<not> isl (extract_book_urls_from_category e h u)
                    \<and> \<not> isl (get_next_page_url e h u))
              \<longrightarrow> (\<exists>bs c'. crawl_category e category_url c = Some (Inr bs, c'))"
  proof
    assume "\<forall>h u. \<not> isl (extract_book_urls_from_category e h u)
                    \<and> \<not> isl (get_next_page_url e h u)"
    with ok have "\<not> isl r" by blast
    then obtain bs where "r = Inr bs" by (cases r) simp_all
    with run show "\<exists>bs c'. crawl_category e category_url c = Some (Inr bs, c')" by blast
  qed
  from 1 2 3 show ?thesis by blast
qed

text \<open>The theorem at a category of two pages, each naming the other as its next page.\<close>

theorem crawl_category_terminates_witness:
  "get_next_page_url cyclic_site ''PAGE-1'' ''http://site/c/page-1'' = Inr (Some ''http://site/c/page-2'')
   \<and> get_next_page_url cyclic_site ''PAGE-2'' ''http://site/c/page-2''
       = Inr (Some ''http://site/c/page-1'')
   \<and> (\<exists>bs c'. crawl_category cyclic_site ''http://site/c/page-1'' (new_crawler ())
                 = Some (Inr bs, c'))
   \<and> map_option (fetches \<circ> snd)
        (crawl_category cyclic_site ''http://site/c/page-1'' (new_crawler ()))
       = Some [''http://site/c/page-1'', ''http://site/b1'', ''http://site/c/page-2'',
               ''http://site/b2'']"
proof -
  have fin: "finite {''http://site/c/page-1'', ''http://site/c/page-2''}" by simp
  have nxt: "\<forall>s url body n. fst (server cyclic_site s url) = Response 200 body
                \<and> get_next_page_url cyclic_site body url = Inr (Some n)
              \<longrightarrow> n \<in> {''http://site/c/page-1'', ''http://site/c/page-2''}"
    by (auto simp: cyclic_site_def sample_env_def split: if_splits)
  have a: "get_next_page_url cyclic_site ''PAGE-1'' ''http://site/c/page-1''
      = Inr (Some ''http://site/c/page-2'')"
    and b: "get_next_page_url cyclic_site ''PAGE-2'' ''http://site/c/page-2''
       = Inr (Some ''http://site/c/page-1'')"
    by code_simp+
  have d: "map_option (fetches \<circ> snd)
        (crawl_category cyclic_site ''http://site/c/page-1'' (new_crawler ()))
       = Some [''http://site/c/page-1'', ''http://site/b1'', ''http://site/c/page-2'',
               ''http://site/b2'']"
    by code_simp
  have quiet: "\<forall>h u. \<not> isl (extract_book_urls_from_category cyclic_site h u)
                   \<and> \<not> isl (get_next_page_url cyclic_site h u)"
    by (simp add: cyclic_site_def sample_env_def)
  from crawl_category_terminates [OF fin nxt, of "''http://site/c/page-1''" "new_crawler ()"]
  have "(\<forall>h u. \<not> isl (extract_book_urls_from_category cyclic_site h u)
                    \<and> \<not> isl (get_next_page_url cyclic_site h u))
        \<longrightarrow> (\<exists>bs c'. crawl_category cyclic_site ''http://site/c/page-1'' (new_crawler ())
                        = Some (Inr bs, c'))"
    by blast
  with quiet
  have "\<exists>bs c'. crawl_category cyclic_site ''http://site/c/page-1'' (new_crawler ())
                  = Some (Inr bs, c')"
    by (rule rev_mp)
  with a b d show ?thesis by blast
qed

lemma endless_fetch:
  "fetch_with_retry endless_site url None c
     = (Some ''PAGE'', c\<lparr>fetches := fetches c @ [url], net := (), requests := requests c @ [url]\<rparr>)"
  by (simp add: fetch_with_retry_def effective_max_attempts_def endless_site_def sample_env_def
      numeral_3_eq_3 Let_def)

lemma endless_never_returns:
  assumes run: "crawl_category_loop e bs cur c = Some y"
  shows "\<not> (e = endless_site
            \<and> (\<exists>u. cur = Some u \<and> u \<noteq> [] \<and> (\<forall>v \<in> visited_urls c. length v < length u)))"
proof (rule crawl_category_loop.raw_induct
      [where P = "\<lambda>e bs cur c y. \<not> (e = endless_site
            \<and> (\<exists>u. cur = Some u \<and> u \<noteq> [] \<and> (\<forall>v \<in> visited_urls c. length v < length u)))",
       OF _ run])
  fix loop :: "unit env \<Rightarrow> BookCreate list \<Rightarrow> string option \<Rightarrow> unit crawler
        \<Rightarrow> ((error + BookCreate list) \<times> unit crawler) option"
  fix e bs cur c y
  assume IH: "\<And>e bs cur c y. loop e bs cur c = Some y \<Longrightarrow>
         \<not> (e = endless_site
            \<and> (\<exists>u. cur = Some u \<and> u \<noteq> [] \<and> (\<forall>v \<in> visited_urls c. length v < length u)))"
  assume body: "(case cur of
        None \<Rightarrow> Some (Inr bs, c)
      | Some url \<Rightarrow>
          (if url = [] then Some (Inr bs, c)
           else if url \<in> visited_urls c then Some (Inr bs, c)
           else (case fetch_with_retry e url None
                        (c\<lparr>visited_urls := insert url (visited_urls c)\<rparr>) of
                   (html, c') \<Rightarrow>
                     (if no_html html then Some (Inr bs, c')
                      else (case extract_book_urls_from_category e (the html) url of
                              Inl err \<Rightarrow> Some (Inl err, c')
                            | Inr book_urls \<Rightarrow>
                                (case crawl_books e book_urls c' of
                                   (page_books, c'') \<Rightarrow>
                                     (case get_next_page_url e (the html) url of
                                        Inl err \<Rightarrow> Some (Inl err, c'')
                                      | Inr next_url \<Rightarrow>
                                          loop e (bs @ page_books) next_url c''))))))) = Some y"
  show "\<not> (e = endless_site
            \<and> (\<exists>u. cur = Some u \<and> u \<noteq> [] \<and> (\<forall>v \<in> visited_urls c. length v < length u)))"
  proof
    assume "e = endless_site
            \<and> (\<exists>u. cur = Some u \<and> u \<noteq> [] \<and> (\<forall>v \<in> visited_urls c. length v < length u))"
    then obtain u where e: "e = endless_site" and cur: "cur = Some u" and ne: "u \<noteq> []"
      and short: "\<forall>v \<in> visited_urls c. length v < length u" by blast
    from short have nv: "u \<notin> visited_urls c" by auto
    let ?c' = "c\<lparr>visited_urls := insert u (visited_urls c),
                 fetches := fetches c @ [u], net := (), requests := requests c @ [u]\<rparr>"
    have x: "extract_book_urls_from_category endless_site ''PAGE'' u = Inr []"
      and n: "get_next_page_url endless_site ''PAGE'' u = Inr (Some (u @ ''+''))"
      by (simp_all add: endless_site_def sample_env_def)
    from body e cur ne nv
    have "loop endless_site (bs @ []) (Some (u @ ''+'')) ?c' = Some y"
      by (simp add: endless_fetch no_html_def x n)
    from IH [OF this] have "\<not> (\<forall>v \<in> visited_urls ?c'. length v < length (u @ ''+''))"
      by simp
    moreover from short have "\<forall>v \<in> visited_urls ?c'. length v < length (u @ ''+'')"
      by auto
    ultimately show False by blast
  qed
qed

text \<open>
  Claim C8 as stated (termination on every site) fails on a site that gives every page a
  next page with a new URL: no URL of the walk is visited before, and \<open>crawl_category\<close>
  does not return.
\<close>

theorem crawl_category_endless_counterexample:
  "crawl_category endless_site ''http://site/c'' (new_crawler ()) = None"
proof (cases "crawl_category endless_site ''http://site/c'' (new_crawler ())")
  case None
  then show ?thesis .
next
  case (Some y)
  then have "crawl_category_loop endless_site [] (Some ''http://site/c'') (new_crawler ()) = Some y"
    by (simp add: crawl_category_def)
  from endless_never_returns [OF this] show ?thesis by (simp add: new_crawler_def)
qed

subsection \<open>The root page\<close>




end
